theory Spec2Isabelle
  imports Complex_Main "HOL-Library.Word"
begin

unbundle bit_operations_syntax

section \<open>The exchange engine (pio\_spmd.c)\<close>

text \<open>
  C \<^verbatim>\<open>int\<close> values are modelled as mathematical integers: signed overflow is undefined
  in C, and every quantity below (ranks, counts, displacements) is far from the limits of
  its type in any run of the library. Arrays that the caller passes by pointer are lists,
  read at an index with \<open>elt\<close>.
\<close>

definition elt :: "int list \<Rightarrow> int \<Rightarrow> int" where
  "elt xs i = xs ! nat i"

subsection \<open>ceil2 and pair\<close>

text \<open>
  \<^verbatim>\<open>int ceil2(const int i) { int p=1; while(p<i){ p*=2; } return(p); }\<close>
  The loop variable starts at 1 and is only doubled, so it stays positive; the guard
  \<open>0 < p\<close> of the model records this and makes the recursion total.
\<close>

function ceil2_loop :: "int \<Rightarrow> int \<Rightarrow> int" where
  "ceil2_loop p i = (if 0 < p \<and> p < i then ceil2_loop (p * 2) i else p)"
  by pat_completeness auto
termination
  by (relation "measure (\<lambda>(p, i). nat (i - p))") auto

definition ceil2 :: "int \<Rightarrow> int" where
  "ceil2 i = ceil2_loop 1 i"

text \<open>
  \<^verbatim>\<open>int pair(const int np, const int p, const int k)
  { int q = (p+1) ^ k ; int pair = (q > np-1)? -1: q; return pair; }\<close>
\<close>

definition pair :: "int \<Rightarrow> int \<Rightarrow> int \<Rightarrow> int" where
  "pair np p k = (let q = (p + 1) XOR k in if q > np - 1 then - 1 else q)"

subsection \<open>MPI calls as a trace\<close>

text \<open>
  The engine returns \<^verbatim>\<open>PIO_NOERR\<close> whatever the MPI calls return
  (\<^verbatim>\<open>CheckMPIReturn\<close> only prints), so its observable behaviour is the sequence of
  MPI calls it issues. A buffer argument is a base pointer of the call plus a byte
  displacement; a request argument is one of the request arrays plus a slot.
\<close>

datatype mpi_type =
    MPI_BYTE | MPI_CHAR | MPI_SHORT | MPI_INT | MPI_FLOAT | MPI_DOUBLE
  | MPI_UNSIGNED_CHAR | MPI_UNSIGNED_SHORT | MPI_UNSIGNED | MPI_LONG_LONG
  | MPI_UNSIGNED_LONG_LONG | MPI_DERIVED nat

datatype mpi_buf = Rcvbuf int | Sndbuf int | Hs

datatype mpi_req = Rcvid int | Sndid int | Hs_rcvid int

datatype mpi_call =
    MPI_Irecv mpi_buf int mpi_type int int mpi_req
  | MPI_Recv mpi_buf int mpi_type int int
  | MPI_Send mpi_buf int mpi_type int int
  | MPI_Rsend mpi_buf int mpi_type int int
  | MPI_Wait mpi_req
  | MPI_Waitall int
  | MPI_Gather int mpi_type int mpi_type int

definition PIO_NOERR :: int where
  "PIO_NOERR = 0"

definition telt :: "mpi_type list \<Rightarrow> int \<Rightarrow> mpi_type" where
  "telt ts i = ts ! nat i"

subsection \<open>pio\_swapm\<close>

record swapm_args =
  nprocs :: int
  mytask :: int
  sndlths :: "int list"
  sdispls :: "int list"
  stypes :: "mpi_type list"
  rcvlths :: "int list"
  rdispls :: "int list"
  rtypes :: "mpi_type list"
  handshake :: bool
  isend :: bool
  max_requests :: int

text \<open>The send to self, before the schedule is built.\<close>

definition swapm_self :: "swapm_args \<Rightarrow> mpi_call list" where
  "swapm_self a =
     (if elt (sndlths a) (mytask a) > 0 then
        (let tag = mytask a + nprocs a in
         [MPI_Irecv (Rcvbuf (elt (rdispls a) (mytask a))) (elt (rcvlths a) (mytask a))
            (telt (rtypes a) (mytask a)) (mytask a) tag (Rcvid 0),
          MPI_Send (Sndbuf (elt (sdispls a) (mytask a))) (elt (sndlths a) (mytask a))
            (telt (stypes a) (mytask a)) (mytask a) tag,
          MPI_Wait (Rcvid 0)])
      else [])"

text \<open>
  The schedule loop: \<^verbatim>\<open>for(istep=0;istep<ceil2(nprocs)-1;istep++)\<close> enters the partner
  \<^verbatim>\<open>p = pair(nprocs, istep, mytask)\<close> at \<^verbatim>\<open>swapids[steps++]\<close> when
  \<^verbatim>\<open>p >= 0 && (sndlths[p] > 0 || rcvlths[p] > 0)\<close>.
\<close>

definition scheduled :: "swapm_args \<Rightarrow> int \<Rightarrow> bool" where
  "scheduled a p = (p \<ge> 0 \<and> (elt (sndlths a) p > 0 \<or> elt (rcvlths a) p > 0))"

definition swap_partners :: "swapm_args \<Rightarrow> int list" where
  "swap_partners a =
     filter (scheduled a) (map (\<lambda>istep. pair (nprocs a) istep (mytask a)) [0..ceil2 (nprocs a) - 2])"

definition swapm_steps :: "swapm_args \<Rightarrow> int" where
  "swapm_steps a = int (length (swap_partners a))"

text \<open>\<^verbatim>\<open>swapids\<close> has \<^verbatim>\<open>nprocs\<close> entries, all 0 before the schedule loop fills a prefix.\<close>

definition swapids :: "swapm_args \<Rightarrow> int list" where
  "swapids a = swap_partners a @ replicate (nat (nprocs a) - length (swap_partners a)) 0"

text \<open>The pair \<^verbatim>\<open>(maxreq, maxreqh)\<close>, chosen once \<^verbatim>\<open>steps\<close> is known to be positive.\<close>

definition swapm_maxreq :: "int \<Rightarrow> int \<Rightarrow> int \<times> int" where
  "swapm_maxreq steps maxrequests =
     (if steps = 1 then (1, 1)
      else if maxrequests > 1 \<and> maxrequests < steps then (maxrequests, maxrequests div 2)
      else if maxrequests > 0 then (2, 1)
      else (steps, steps))"

definition post_hs :: "swapm_args \<Rightarrow> int \<Rightarrow> mpi_call list" where
  "post_hs a istep =
     (let p = elt (swapids a) istep in
      if elt (sndlths a) p > 0
      then [MPI_Irecv Hs 1 MPI_INT p (mytask a + nprocs a) (Hs_rcvid istep)] else [])"

definition post_rcv :: "swapm_args \<Rightarrow> int \<Rightarrow> mpi_call list" where
  "post_rcv a istep =
     (let p = elt (swapids a) istep in
      if elt (rcvlths a) p > 0
      then MPI_Irecv (Rcvbuf (elt (rdispls a) p)) (elt (rcvlths a) p) (telt (rtypes a) p) p
             (p + nprocs a) (Rcvid istep)
           # (if handshake a then [MPI_Send Hs 1 MPI_INT p (p + nprocs a)] else [])
      else [])"

definition send_data :: "swapm_args \<Rightarrow> int \<Rightarrow> mpi_call list" where
  "send_data a istep =
     (let p = elt (swapids a) istep in
      if elt (sndlths a) p > 0
      then (if handshake a then [MPI_Wait (Hs_rcvid istep)] else [])
           @ [MPI_Rsend (Sndbuf (elt (sdispls a) p)) (elt (sndlths a) p) (telt (stypes a) p) p
                (mytask a + nprocs a)]
      else [])"

text \<open>
  One iteration of the main loop \<^verbatim>\<open>for(istep = 0; istep < steps; istep++)\<close>; the state is
  \<^verbatim>\<open>rstep\<close> and the calls issued so far.
\<close>

definition swapm_iter ::
  "swapm_args \<Rightarrow> int \<Rightarrow> int \<Rightarrow> int \<times> mpi_call list \<Rightarrow> int \<Rightarrow> int \<times> mpi_call list" where
  "swapm_iter a steps maxreqh st istep =
     (let rstep = fst st;
          calls = snd st @ send_data a istep in
      if istep > maxreqh then
        (let calls = calls @
               (if elt (rcvlths a) (elt (swapids a) (istep - maxreqh)) > 0
                then [MPI_Wait (Rcvid (istep - maxreqh))] else []) in
         if rstep < steps then
           (rstep + 1,
            calls @ (if handshake a then post_hs a rstep else []) @ post_rcv a rstep)
         else (rstep, calls))
      else (rstep, calls))"

text \<open>The trailing loop \<^verbatim>\<open>for(istep=steps-maxreqh;istep<steps;istep++)\<close>.\<close>

definition swapm_drain :: "swapm_args \<Rightarrow> int \<Rightarrow> mpi_call list" where
  "swapm_drain a istep =
     (let p = elt (swapids a) istep in
      (if elt (rcvlths a) p > 0 then [MPI_Wait (Rcvid istep)] else [])
      @ (if isend a \<and> elt (sndlths a) p > 0 then [MPI_Wait (Sndid istep)] else []))"

definition pio_swapm :: "swapm_args \<Rightarrow> int \<times> mpi_call list" where
  "pio_swapm a =
     (let self = swapm_self a;
          steps = swapm_steps a in
      if steps = 0 then (PIO_NOERR, self)
      else
        (let (maxreq, maxreqh) = swapm_maxreq steps (max_requests a);
             hs = (if handshake a then concat (map (post_hs a) [0..maxreq - 1]) else []);
             rcv = concat (map (post_rcv a) [0..maxreq - 1]);
             (rstep, calls) =
               foldl (swapm_iter a steps maxreqh) (maxreq, self @ hs @ rcv) [0..steps - 1];
             drain = concat (map (swapm_drain a) [steps - maxreqh..steps - 1])
         in (PIO_NOERR, calls @ drain)))"

text \<open>
  The number of data receives outstanding: a receive posted on \<^verbatim>\<open>rcvids+i\<close> is
  outstanding until a wait on that request. \<open>window\<close> is the largest number outstanding
  at any moment of a trace.
\<close>

fun outstanding :: "int list \<Rightarrow> mpi_call \<Rightarrow> int list" where
  "outstanding out (MPI_Irecv b n t s tag (Rcvid i)) = List.insert i out"
| "outstanding out (MPI_Wait (Rcvid i)) = removeAll i out"
| "outstanding out c = out"

fun window :: "int list \<Rightarrow> mpi_call list \<Rightarrow> nat" where
  "window out [] = length out"
| "window out (c # cs) = max (length out) (window (outstanding out c) cs)"

text \<open>A call addresses a peer when its source or destination is another rank.\<close>

fun peer_of :: "mpi_call \<Rightarrow> int option" where
  "peer_of (MPI_Irecv b n t s tag r) = Some s"
| "peer_of (MPI_Recv b n t s tag) = Some s"
| "peer_of (MPI_Send b n t d tag) = Some d"
| "peer_of (MPI_Rsend b n t d tag) = Some d"
| "peer_of c = None"

subsection \<open>pio\_fc\_gather\<close>

record gather_args =
  sendcnt :: int
  sendtype :: mpi_type
  recvcnt :: int
  recvtype :: mpi_type
  root :: int
  flow_cntl :: int
  comm_rank :: int
  comm_size :: int

definition MAX_GATHER_BLOCK_SIZE :: int where
  "MAX_GATHER_BLOCK_SIZE = 64"

text \<open>
  One iteration of the root's loop \<^verbatim>\<open>for(int p=0;p<nprocs;p++)\<close>; the state is
  \<^verbatim>\<open>head\<close>, \<^verbatim>\<open>count\<close> and the calls issued so far. The receive from peer \<open>p\<close> is posted
  at \<^verbatim>\<open>(char *) recvbuf + p\<close>; \<^verbatim>\<open>displs = p*recvcnt\<close> is computed and not used.
\<close>

definition gather_iter ::
  "gather_args \<Rightarrow> int \<Rightarrow> int \<Rightarrow> int \<times> int \<times> mpi_call list \<Rightarrow> int \<Rightarrow> int \<times> int \<times> mpi_call list" where
  "gather_iter g preposts mtag st p =
     (let head = fst st; count = fst (snd st); calls = snd (snd st) in
      if p \<noteq> root g then
        if recvcnt g > 0 then
          (let calls = calls @ (if count > preposts
                                then [MPI_Wait (Rcvid (head mod preposts + 1))] else []);
               count = count + 1;
               head = head mod preposts + 1
           in (head, count,
               calls @ [MPI_Irecv (Rcvbuf p) (recvcnt g) (recvtype g) p mtag (Rcvid head),
                        MPI_Send Hs 1 (recvtype g) p mtag]))
        else st
      else st)"

definition pio_fc_gather :: "gather_args \<Rightarrow> int \<times> mpi_call list" where
  "pio_fc_gather g =
     (if flow_cntl g > 0 then
        (let gather_block_size = min (flow_cntl g) MAX_GATHER_BLOCK_SIZE;
             mytask = comm_rank g;
             nprocs = comm_size g;
             mtag = 2 * nprocs in
         if mytask = root g then
           (let preposts = min (nprocs - 1) gather_block_size;
                (head, count, calls) = foldl (gather_iter g preposts mtag) (0, 0, []) [0..nprocs - 1];
                count = min count preposts
            in (PIO_NOERR, calls @ (if count > 0 then [MPI_Waitall count] else [])))
         else
           (PIO_NOERR,
            if sendcnt g > 0
            then [MPI_Recv Hs 1 (sendtype g) (root g) mtag,
                  MPI_Rsend (Sndbuf 0) (sendcnt g) (sendtype g) (root g) mtag]
            else []))
      else
        (PIO_NOERR,
         [MPI_Gather (sendcnt g) (sendtype g) (recvcnt g) (recvtype g) (root g)]))"

text \<open>
  What the root's calls leave in \<^verbatim>\<open>recvbuf\<close>. The MPI library is not part of the sources;
  its effect is written after the MPI standard: a receive from rank \<open>p\<close> posted at a byte
  displacement stores the message of \<open>p\<close> there, and \<^verbatim>\<open>MPI_Gather\<close> stores the message of
  rank \<open>p\<close> at displacement \<open>p * recvcnt * extent\<close>, the root's own included. \<open>msgs\<close> holds
  the bytes each rank sends, \<open>extent\<close> the size in bytes of one element of the receive type.
  A store that would leave the buffer yields \<open>None\<close>.
\<close>

type_synonym byte = "8 word"

definition store :: "byte list \<Rightarrow> int \<Rightarrow> byte list \<Rightarrow> byte list option" where
  "store buf off bytes =
     (if 0 \<le> off \<and> nat off + length bytes \<le> length buf
      then Some (take (nat off) buf @ bytes @ drop (nat off + length bytes) buf)
      else None)"

fun received :: "byte list list \<Rightarrow> int \<Rightarrow> byte list \<Rightarrow> mpi_call \<Rightarrow> byte list option" where
  "received msgs extent buf (MPI_Irecv (Rcvbuf off) n t src tag r) =
     store buf off (take (nat (n * extent)) (msgs ! nat src))"
| "received msgs extent buf (MPI_Gather sn st n t rt) =
     foldl (\<lambda>b p. case b of None \<Rightarrow> None
                   | Some b \<Rightarrow> store b (int p * n * extent) (take (nat (n * extent)) (msgs ! p)))
       (Some buf) [0..<length msgs]"
| "received msgs extent buf c = Some buf"

fun received_all :: "byte list list \<Rightarrow> int \<Rightarrow> byte list \<Rightarrow> mpi_call list \<Rightarrow> byte list option" where
  "received_all msgs extent buf [] = Some buf"
| "received_all msgs extent buf (c # cs) =
     (case received msgs extent buf c of None \<Rightarrow> None
      | Some b \<Rightarrow> received_all msgs extent b cs)"

definition root_recvbuf :: "gather_args \<Rightarrow> byte list list \<Rightarrow> int \<Rightarrow> byte list \<Rightarrow> byte list option" where
  "root_recvbuf g msgs extent buf = received_all msgs extent buf (snd (pio_fc_gather g))"

subsection \<open>Concrete calls\<close>

definition swapm_example :: swapm_args where
  "swapm_example =
     \<lparr>nprocs = 4, mytask = 0, sndlths = [1, 1, 1, 1], sdispls = [0, 1, 2, 3],
      stypes = [MPI_INT, MPI_INT, MPI_INT, MPI_INT], rcvlths = [1, 1, 1, 1],
      rdispls = [0, 1, 2, 3], rtypes = [MPI_INT, MPI_INT, MPI_INT, MPI_INT],
      handshake = False, isend = False, max_requests = 1\<rparr>"

definition swapm_pair_example :: swapm_args where
  "swapm_pair_example =
     \<lparr>nprocs = 2, mytask = 0, sndlths = [1, 1], sdispls = [0, 1],
      stypes = [MPI_INT, MPI_INT], rcvlths = [1, 1],
      rdispls = [0, 1], rtypes = [MPI_INT, MPI_INT],
      handshake = False, isend = False, max_requests = 4\<rparr>"

definition swapm_single_example :: swapm_args where
  "swapm_single_example =
     \<lparr>nprocs = 1, mytask = 0, sndlths = [1], sdispls = [0],
      stypes = [MPI_INT], rcvlths = [1],
      rdispls = [0], rtypes = [MPI_INT],
      handshake = False, isend = False, max_requests = 4\<rparr>"

definition gather_example :: gather_args where
  "gather_example =
     \<lparr>sendcnt = 2, sendtype = MPI_CHAR, recvcnt = 2, recvtype = MPI_CHAR, root = 0,
      flow_cntl = 1, comm_rank = 0, comm_size = 2\<rparr>"

subsection \<open>Auxiliary notions for the analysis of the receive window\<close>

definition outs :: "int list \<Rightarrow> mpi_call list \<Rightarrow> int list" where
  "outs out cs = foldl outstanding out cs"

text \<open>A slot set: slot 0 and the slots from lo up to, not including, hi.\<close>

definition fits :: "int \<Rightarrow> int \<Rightarrow> int list \<Rightarrow> bool" where
  "fits lo hi out = (distinct out \<and> set out \<subseteq> insert 0 {lo..<hi})"

definition quiet :: "mpi_call \<Rightarrow> bool" where
  "quiet c = (\<forall>out. outstanding out c = out)"

definition live :: "swapm_args \<Rightarrow> int \<Rightarrow> bool" where
  "live a i = (elt (rcvlths a) (elt (swapids a) i) > 0)"

definition calm :: "mpi_call \<Rightarrow> bool" where
  "calm c = (\<forall>out. length (outstanding out c) \<le> length out)"

text \<open>
  The invariant of the main loop before iteration \<open>k\<close>: the outstanding receives are on
  slot 0 or on the slots from \<open>k - h\<close> to \<open>rstep - 1\<close>, at most \<open>m\<close> of them.
\<close>

definition loop_inv ::
  "swapm_args \<Rightarrow> int \<Rightarrow> int \<Rightarrow> int \<Rightarrow> int \<Rightarrow> int \<times> mpi_call list \<Rightarrow> bool" where
  "loop_inv a s m h k st =
     (fst st \<le> m + max 0 (k - h - 1)
      \<and> (fst st < s \<longrightarrow> fst st = m + max 0 (k - h - 1))
      \<and> fits (max 1 (k - h)) (fst st) (outs [] (snd st))
      \<and> (\<forall>i\<in>set (outs [] (snd st)). live a i)
      \<and> window [] (snd st) \<le> nat m)"

section \<open>Distributed array writes (pio\_darray.c)\<close>

subsection \<open>Data\<close>

text \<open>
  The structures of \<^verbatim>\<open>pio.h\<close> with the fields the write path reads or writes. Integer
  fields are mathematical integers (see above); a pointer to a byte buffer is an optional
  byte list, \<open>None\<close> being \<^verbatim>\<open>NULL\<close>. Names that clash with an Isabelle keyword or an
  earlier field carry a prefix: \<^verbatim>\<open>record\<close> of \<^verbatim>\<open>var_desc_t\<close> is \<open>vrecord\<close>.
\<close>

datatype pio_rearr = PIO_REARR_BOX | PIO_REARR_SUBSET | PIO_REARR_unknown

datatype pio_iotype =
    PIO_IOTYPE_PNETCDF | PIO_IOTYPE_NETCDF | PIO_IOTYPE_NETCDF4C | PIO_IOTYPE_NETCDF4P
  | PIO_IOTYPE_unknown

record io_desc =
  rearranger :: pio_rearr
  ndof :: int
  llen :: int
  maxiobuflen :: int
  mpitype :: mpi_type
  mpitype_size :: int
  piotype_size :: int
  maxregions :: int
  maxfillregions :: int
  holegridsize :: int
  maxholegridsize :: int
  needsfill :: bool

record iosystem_desc =
  async :: bool
  ioproc :: bool
  io_rank :: int
  compmaster_is_root :: bool

record var_desc =
  vrecord :: int
  v_fillvalue :: "byte list option"
  fillbuf :: "byte list option"
  v_wb_pend :: int
  vrsize :: int
  pio_type :: int
  type_size :: int
  use_fill :: int

record wmulti_buffer =
  ioid :: int
  recordvar :: int
  num_arrays :: int
  arraylen :: int
  vid :: "int list option"
  frame :: "int list option"
  fillvalue :: "byte list option"
  data :: "byte list option"

text \<open>
  The chain of write-multi-buffers of a file: \<^verbatim>\<open>file->buffer\<close> is its first node, and
  \<open>buffer_next\<close> lists the nodes reached from it through \<^verbatim>\<open>next\<close>.
\<close>

record file_desc =
  iosystem :: iosystem_desc
  iotype :: pio_iotype
  mode :: int
  iobuf :: "byte list option"
  varlist :: "int \<Rightarrow> var_desc"
  buffer :: wmulti_buffer
  buffer_next :: "wmulti_buffer list"
  wb_pend :: int

text \<open>
  The process-wide state: the open files and the decompositions by id, and the global
  \<^verbatim>\<open>pio_buffer_size_limit\<close> (10485760 when the library is loaded).
\<close>

record pio_state =
  files :: "int \<Rightarrow> file_desc option"
  iodescs :: "int \<Rightarrow> io_desc option"
  pio_buffer_size_limit :: int

subsection \<open>Results\<close>

text \<open>
  A call ends by returning a code, by a failed \<^verbatim>\<open>pioassert\<close>, or in undefined behaviour
  (a copy through \<^verbatim>\<open>NULL\<close> or past the end of a buffer). A returned code is
  \<^verbatim>\<open>PIO_NOERR\<close>, one of the library's error constants, or the non-zero code of a callee
  handed on through \<^verbatim>\<open>pio_err\<close>, \<^verbatim>\<open>check_mpi\<close> or \<^verbatim>\<open>check_netcdf\<close>.

  Modelled from the spec: \<^verbatim>\<open>pio_err\<close>, \<^verbatim>\<open>check_mpi\<close> and \<^verbatim>\<open>check_netcdf\<close> are defined
  outside the sources; following section 7 of the specification they report the error
  and return its code to the caller.
\<close>

datatype pio_error =
    PIO_EBADID | PIO_EINVAL | PIO_EPERM | PIO_ENOMEM | PIO_EBADIOTYPE | PIO_EBADTYPE

datatype retcode = NOERR | Err pio_error | Callee int | Mpi int | Netcdf int

datatype outcome = Return retcode | Assert_failed string | Undefined

subsection \<open>What lies outside the sources\<close>

text \<open>
  Constants of \<^verbatim>\<open>pio.h\<close> and \<^verbatim>\<open>config.h\<close>, and the results of the calls into the rest of
  the library (the buffer pool, the rearranger, the backends, MPI), are parameters of the
  model. \<open>NDEBUG\<close> tells whether \<^verbatim>\<open>pioassert\<close> is compiled out.
\<close>

datatype alloc_site =
    A_iobuf | A_token | A_fillbuf | A_wmb | A_data | A_vid | A_frame | A_fillvalue
  | A_var_fillvalue

datatype darray_mode = DARRAY_DATA | DARRAY_FILL

datatype bcast_item =
    B_ncid | B_nvars | B_varids | B_ioid | B_arraylen | B_array | B_frame_present | B_frame
  | B_fillvalue_present | B_fillvalue | B_flushtodisk

record extern =
  PIO_MAX_VARS :: int
  PIO_WRITE :: int
  PIO_MAX_CACHED_IO_REGIONS :: int
  NDEBUG :: bool
  NETCDF4 :: bool
  PIO_FILL :: "mpi_type \<Rightarrow> byte list"
  bstats :: "int \<times> int \<times> int"
  alloc_ok :: "alloc_site \<Rightarrow> bool"
  comp_comm_needsflush :: "int list"
  MPI_Allreduce_rc :: int
  MPI_Send_rc :: int
  MPI_Bcast_rc :: "bcast_item \<Rightarrow> int"
  MPI_Bcast_mpierr :: "int \<Rightarrow> int \<times> int"
  MPI_Bcast_fndims :: "int \<Rightarrow> int \<times> int"
  PIOc_inq_varndims :: "int \<Rightarrow> int \<times> int"
  PIOc_inq_vartype :: "int \<Rightarrow> int \<times> int"
  PIOc_inq_type :: "int \<Rightarrow> int \<times> int"
  PIOc_inq_var_fill :: "int \<Rightarrow> int \<times> int \<times> byte list"
  calc_var_rec_sz :: "int \<Rightarrow> int \<times> int"
  flush_buffer :: "file_desc \<Rightarrow> nat \<Rightarrow> bool \<Rightarrow> int \<times> file_desc"
  flush_output_buffer_rc :: "bool \<Rightarrow> int"
  usage_over_limit :: bool
  rearrange_comp2io :: "byte list \<Rightarrow> byte list option \<Rightarrow> int \<Rightarrow> int \<times> byte list option"
  write_darray_multi_par :: "darray_mode \<Rightarrow> int"
  write_darray_multi_serial :: "darray_mode \<Rightarrow> int"

text \<open>The calls a write makes into the rest of the library, in order.\<close>

datatype event =
    Ev_send_msg
  | Ev_bcast bcast_item
  | Ev_allreduce int int
  | Ev_bget alloc_site int
  | Ev_brel alloc_site
  | Ev_flush_output_buffer bool
  | Ev_rearrange "byte list option" int
  | Ev_write_par darray_mode "byte list option" "byte list option"
  | Ev_write_serial darray_mode "byte list option" "byte list option"
  | Ev_flush_buffer nat bool
  | Ev_append nat int "byte list"

subsection \<open>Memory\<close>

text \<open>
  Modelled from the spec: the buffer pool (\<^verbatim>\<open>bget\<close>, \<^verbatim>\<open>bgetr\<close>, \<^verbatim>\<open>brel\<close>, \<^verbatim>\<open>bstats\<close>) is
  not among the sources. After section 4.1 of the specification, an acquired block is
  zero-filled and has the size asked for, or the acquisition fails; growing a block keeps
  its contents. Whether an acquisition succeeds is a parameter (\<open>alloc_ok\<close>). The C
  library's \<^verbatim>\<open>realloc\<close> is modelled the same way.
\<close>

definition bget :: "extern \<Rightarrow> alloc_site \<Rightarrow> int \<Rightarrow> byte list option" where
  "bget ext site n = (if alloc_ok ext site \<and> 0 \<le> n then Some (replicate (nat n) 0) else None)"

definition bgetr :: "extern \<Rightarrow> alloc_site \<Rightarrow> byte list option \<Rightarrow> int \<Rightarrow> byte list option" where
  "bgetr ext site old n =
     (if alloc_ok ext site \<and> 0 \<le> n then
        (let b = (case old of None \<Rightarrow> [] | Some b \<Rightarrow> b)
         in Some (take (nat n) b @ replicate (nat n - length b) 0))
      else None)"

definition realloc_ints :: "extern \<Rightarrow> alloc_site \<Rightarrow> int list option \<Rightarrow> int \<Rightarrow> int list option" where
  "realloc_ints ext site old n =
     (if alloc_ok ext site \<and> 0 \<le> n then
        (let b = (case old of None \<Rightarrow> [] | Some b \<Rightarrow> b)
         in Some (take (nat n) b @ replicate (nat n - length b) 0))
      else None)"

text \<open>
  \<^verbatim>\<open>memcpy(dst + doff, src + soff, n)\<close> on byte lists; \<open>None\<close> when the copy would read or
  write outside either block.
\<close>

definition memcpy :: "byte list \<Rightarrow> int \<Rightarrow> byte list \<Rightarrow> int \<Rightarrow> int \<Rightarrow> byte list option" where
  "memcpy dst doff src soff n =
     (if 0 \<le> n \<and> 0 \<le> doff \<and> 0 \<le> soff
         \<and> nat doff + nat n \<le> length dst \<and> nat soff + nat n \<le> length src
      then Some (take (nat doff) dst @ take (nat n) (drop (nat soff) src)
                 @ drop (nat doff + nat n) dst)
      else None)"

text \<open>The \<open>n\<close> bytes of a block from byte \<open>off\<close> on.\<close>

definition bytes_at :: "byte list \<Rightarrow> int \<Rightarrow> int \<Rightarrow> byte list" where
  "bytes_at b off n = take (nat n) (drop (nat off) b)"

subsection \<open>PIOc\_set\_buffer\_size\_limit\<close>

definition PIOc_set_buffer_size_limit :: "pio_state \<Rightarrow> int \<Rightarrow> int \<times> pio_state" where
  "PIOc_set_buffer_size_limit st limit =
     (let oldsize = pio_buffer_size_limit st in
      (oldsize, if limit > 0 then st\<lparr>pio_buffer_size_limit := limit\<rparr> else st))"

subsection \<open>find\_var\_fillvalue\<close>

text \<open>
  The function fills \<^verbatim>\<open>vdesc\<close> as it goes, so a failing call leaves the fields set so far.
\<close>

definition find_var_fillvalue :: "extern \<Rightarrow> int \<Rightarrow> var_desc \<Rightarrow> retcode \<times> var_desc" where
  "find_var_fillvalue ext varid vdesc =
     (let (ierr, ty) = PIOc_inq_vartype ext varid;
          vdesc = vdesc\<lparr>pio_type := ty\<rparr> in
      if ierr \<noteq> 0 then (Callee ierr, vdesc)
      else
        (let (ierr, sz) = PIOc_inq_type ext ty;
             vdesc = vdesc\<lparr>type_size := sz\<rparr> in
         if ierr \<noteq> 0 then (Callee ierr, vdesc)
         else if \<not> alloc_ok ext A_var_fillvalue then (Err PIO_ENOMEM, vdesc)
         else
           (let (ierr, no_fill, fill) = PIOc_inq_var_fill ext varid;
                vdesc = vdesc\<lparr>v_fillvalue := Some (take (nat sz) (fill @ replicate (nat sz) 0))\<rparr> in
            if ierr \<noteq> 0 then (Callee ierr, vdesc)
            else (NOERR, vdesc\<lparr>use_fill := (if no_fill \<noteq> 0 then 0 else 1)\<rparr>))))"

subsection \<open>PIO\_wmb\_needs\_flush\<close>

text \<open>
  \<^verbatim>\<open>bstats\<close> reports \<^verbatim>\<open>(curalloc, totfree, maxfree)\<close>. The C comparison
  \<^verbatim>\<open>maxfree <= 1.1 * wmb_req_cache_sz\<close> is carried out in double precision; the model
  compares the exact real numbers.
\<close>

definition PIO_wmb_needs_flush :: "extern \<Rightarrow> pio_state \<Rightarrow> wmulti_buffer \<Rightarrow> int \<Rightarrow> io_desc \<Rightarrow> int" where
  "PIO_wmb_needs_flush ext st wmb alen iodesc =
     (let NEEDS_DISK_FLUSH = 2; NEEDS_IO_FLUSH = 1; NO_FLUSH = 0;
          (curalloc, totfree, maxfree) = bstats ext in
      if curalloc \<ge> pio_buffer_size_limit st then NEEDS_DISK_FLUSH
      else
        (let array_sz_bytes = alen * mpitype_size iodesc;
             wmb_req_cache_sz = (1 + num_arrays wmb) * array_sz_bytes in
         if real_of_int maxfree \<le> 1.1 * real_of_int wmb_req_cache_sz then NEEDS_IO_FLUSH
         else NO_FLUSH))"

subsection \<open>The chain of write-multi-buffers\<close>

definition chain :: "file_desc \<Rightarrow> wmulti_buffer list" where
  "chain file = buffer file # buffer_next file"

definition wmb_at :: "file_desc \<Rightarrow> nat \<Rightarrow> wmulti_buffer" where
  "wmb_at file n = chain file ! n"

definition wmb_update :: "file_desc \<Rightarrow> nat \<Rightarrow> wmulti_buffer \<Rightarrow> file_desc" where
  "wmb_update file n w =
     (case n of 0 \<Rightarrow> file\<lparr>buffer := w\<rparr>
      | Suc k \<Rightarrow> file\<lparr>buffer_next := (buffer_next file)[k := w]\<rparr>)"

text \<open>
  \<^verbatim>\<open>for (wmb = &file->buffer; wmb->next; wmb = wmb->next)
      if (wmb->ioid == ioid && wmb->recordvar == recordvar) break;\<close>
  The result is the position in the chain where the loop stops: at the first node other
  than the last that matches, or at the last node.
\<close>

fun wmb_search :: "wmulti_buffer \<Rightarrow> wmulti_buffer list \<Rightarrow> int \<Rightarrow> int \<Rightarrow> nat" where
  "wmb_search w [] i r = 0"
| "wmb_search w (w' # ws) i r =
     (if ioid w = i \<and> recordvar w = r then 0 else Suc (wmb_search w' ws i r))"

text \<open>
  The node for \<open>(ioid, recordvar)\<close>: the one the search stops at if it matches, else a fresh
  node linked after the last one. \<open>None\<close> when \<^verbatim>\<open>calloc\<close> fails.
\<close>

definition wmb_locate :: "extern \<Rightarrow> file_desc \<Rightarrow> int \<Rightarrow> int \<Rightarrow> int \<Rightarrow> (file_desc \<times> nat) option" where
  "wmb_locate ext file i r alen =
     (let n = wmb_search (buffer file) (buffer_next file) i r;
          wmb = wmb_at file n in
      if ioid wmb \<noteq> i \<or> recordvar wmb \<noteq> r then
        (if \<not> alloc_ok ext A_wmb then None
         else Some (file\<lparr>buffer_next := buffer_next file @
                      [\<lparr>ioid = i, recordvar = r, num_arrays = 0, arraylen = alen, vid = None,
                        frame = None, fillvalue = None, data = None\<rparr>]\<rparr>,
                    Suc n))
      else Some (file, n))"

subsection \<open>PIOc\_write\_darray\<close>

text \<open>
  The function is a sequence of steps over the file it works on and its local variables.
  A step either ends the call with an outcome or hands the state on.
\<close>

record wd_state =
  w_file :: file_desc
  w_n :: nat
  w_alen :: int
  w_needsflush :: int
  w_trace :: "event list"

definition andthen ::
  "outcome option \<times> 's \<Rightarrow> ('s \<Rightarrow> outcome option \<times> 's) \<Rightarrow> outcome option \<times> 's" where
  "andthen r f = (case r of (Some oc, s) \<Rightarrow> (Some oc, s) | (None, s) \<Rightarrow> f s)"

definition set_var :: "file_desc \<Rightarrow> int \<Rightarrow> var_desc \<Rightarrow> file_desc" where
  "set_var f varid vdesc = f\<lparr>varlist := (varlist f)(varid := vdesc)\<rparr>"

definition emit :: "wd_state \<Rightarrow> event list \<Rightarrow> wd_state" where
  "emit w evs = w\<lparr>w_trace := w_trace w @ evs\<rparr>"

text \<open>\<^verbatim>\<open>if (!vdesc->fillvalue) if ((ierr = find_var_fillvalue(file, varid, vdesc))) return ...\<close>\<close>

definition wd_fillvalue :: "extern \<Rightarrow> int \<Rightarrow> wd_state \<Rightarrow> outcome option \<times> wd_state" where
  "wd_fillvalue ext varid w =
     (let vdesc = varlist (w_file w) varid in
      if v_fillvalue vdesc = None then
        (let (ierr, vdesc) = find_var_fillvalue ext varid vdesc;
             w = w\<lparr>w_file := set_var (w_file w) varid vdesc\<rparr> in
         if ierr \<noteq> NOERR then (Some (Return (Err PIO_EBADID)), w) else (None, w))
      else (None, w))"

text \<open>Find or create the write-multi-buffer for \<open>(ioid, recordvar)\<close>.\<close>

definition wd_locate :: "extern \<Rightarrow> int \<Rightarrow> int \<Rightarrow> wd_state \<Rightarrow> outcome option \<times> wd_state" where
  "wd_locate ext varid i w =
     (let vdesc = varlist (w_file w) varid;
          r = (if vrecord vdesc \<ge> 0 then 1 else 0) in
      case wmb_locate ext (w_file w) i r (w_alen w) of
        None \<Rightarrow> (Some (Return (Err PIO_ENOMEM)), w)
      | Some (f, n) \<Rightarrow> (None, w\<lparr>w_file := f, w_n := n\<rparr>))"

text \<open>
  The local flush code: \<^verbatim>\<open>PIO_wmb_needs_flush\<close>, then the cap on cached regions.
\<close>

definition local_needsflush :: "extern \<Rightarrow> pio_state \<Rightarrow> io_desc \<Rightarrow> wmulti_buffer \<Rightarrow> int \<Rightarrow> int" where
  "local_needsflush ext st iodesc wmb al =
     (let needs = PIO_wmb_needs_flush ext st wmb al iodesc;
          decomp_max_regions = (if maxregions iodesc \<ge> maxfillregions iodesc
                                then maxregions iodesc else maxfillregions iodesc);
          io_max_regions = (1 + num_arrays wmb) * decomp_max_regions in
      if io_max_regions > PIO_MAX_CACHED_IO_REGIONS ext then 2 else needs)"

text \<open>
  \<^verbatim>\<open>MPI_Allreduce(MPI_IN_PLACE, &needsflush, 1, MPI_INT, MPI_MAX, ios->comp_comm)\<close>: the
  result is the largest of the codes the tasks of the compute communicator contribute;
  \<open>comp_comm_needsflush\<close> holds the codes of the other tasks.
\<close>

definition allreduce_max :: "int \<Rightarrow> int list \<Rightarrow> int" where
  "allreduce_max x others = foldl max x others"

definition wd_decide :: "extern \<Rightarrow> pio_state \<Rightarrow> io_desc \<Rightarrow> wd_state \<Rightarrow> outcome option \<times> wd_state" where
  "wd_decide ext st iodesc w =
     (let wmb = wmb_at (w_file w) (w_n w);
          needs = local_needsflush ext st iodesc wmb (w_alen w);
          agreed = allreduce_max needs (comp_comm_needsflush ext);
          w = emit w [Ev_allreduce needs agreed] in
      if MPI_Allreduce_rc ext \<noteq> 0 then (Some (Return (Mpi (MPI_Allreduce_rc ext))), w)
      else (None, w\<lparr>w_needsflush := agreed\<rparr>))"

definition wd_recsz :: "extern \<Rightarrow> int \<Rightarrow> wd_state \<Rightarrow> outcome option \<times> wd_state" where
  "wd_recsz ext varid w =
     (let f = w_file w; ios = iosystem f; vdesc = varlist f varid in
      if (\<not> async ios \<or> \<not> ioproc ios) \<and> vrsize vdesc = 0
      then (None, w\<lparr>w_file := set_var f varid (vdesc\<lparr>vrsize := snd (calc_var_rec_sz ext varid)\<rparr>)\<rparr>)
      else (None, w))"

text \<open>
  \<^verbatim>\<open>if (needsflush > 0) if ((ierr = flush_buffer(ncid, wmb, (needsflush == 2)))) return ...\<close>
  If \<^verbatim>\<open>flush_buffer\<close> removed the node from the chain, \<^verbatim>\<open>wmb\<close> dangles.
\<close>

definition wd_flush :: "extern \<Rightarrow> wd_state \<Rightarrow> outcome option \<times> wd_state" where
  "wd_flush ext w =
     (if w_needsflush w > 0 then
        (let w = emit w [Ev_flush_buffer (w_n w) (w_needsflush w = 2)];
             (ierr, f) = flush_buffer ext (w_file w) (w_n w) (w_needsflush w = 2);
             w = w\<lparr>w_file := f\<rparr> in
         if ierr \<noteq> 0 then (Some (Return (Callee ierr)), w)
         else if w_n w \<ge> length (chain f) then (Some Undefined, w)
         else (None, w))
      else (None, w))"

definition wd_pend :: "int \<Rightarrow> wd_state \<Rightarrow> outcome option \<times> wd_state" where
  "wd_pend varid w =
     (let f = w_file w; vdesc = varlist f varid;
          f = set_var f varid (vdesc\<lparr>v_wb_pend := v_wb_pend vdesc + vrsize vdesc\<rparr>);
          f = f\<lparr>wb_pend := wb_pend f + vrsize vdesc\<rparr>
      in (None, w\<lparr>w_file := f\<rparr>))"

text \<open>
  The append, on the node \<^verbatim>\<open>wmb\<close>. Each step works on that node; \<open>on_wmb\<close> runs it on
  node \<open>w_n\<close> of the chain and writes the node back.
\<close>

definition on_wmb ::
  "(wmulti_buffer \<Rightarrow> outcome option \<times> wmulti_buffer \<times> event list)
   \<Rightarrow> wd_state \<Rightarrow> outcome option \<times> wd_state" where
  "on_wmb step w =
     (let (r, wmb, evs) = step (wmb_at (w_file w) (w_n w))
      in (r, emit (w\<lparr>w_file := wmb_update (w_file w) (w_n w) wmb\<rparr>) evs))"

text \<open>
  \<^verbatim>\<open>if (arraylen > 0)
      if (!(wmb->data = bgetr(wmb->data, (1 + wmb->num_arrays) * arraylen * iodesc->mpitype_size)))
          return pio_err(ios, file, PIO_ENOMEM, __FILE__, __LINE__);\<close>
\<close>

definition wd_data :: "extern \<Rightarrow> io_desc \<Rightarrow> int \<Rightarrow> wmulti_buffer
    \<Rightarrow> outcome option \<times> wmulti_buffer \<times> event list" where
  "wd_data ext iodesc al wmb =
     (if al > 0 then
        (let sz = (1 + num_arrays wmb) * al * mpitype_size iodesc;
             d = bgetr ext A_data (data wmb) sz in
         (if d = None then Some (Return (Err PIO_ENOMEM)) else None,
          wmb\<lparr>data := d\<rparr>, [Ev_bget A_data sz]))
      else (None, wmb, []))"

definition wd_vid :: "extern \<Rightarrow> wmulti_buffer \<Rightarrow> outcome option \<times> wmulti_buffer \<times> event list" where
  "wd_vid ext wmb =
     (let v = realloc_ints ext A_vid (vid wmb) (1 + num_arrays wmb) in
      (if v = None then Some (Return (Err PIO_ENOMEM)) else None, wmb\<lparr>vid := v\<rparr>, []))"

definition wd_frame :: "extern \<Rightarrow> var_desc \<Rightarrow> wmulti_buffer
    \<Rightarrow> outcome option \<times> wmulti_buffer \<times> event list" where
  "wd_frame ext vdesc wmb =
     (if vrecord vdesc \<ge> 0 then
        (let fr = realloc_ints ext A_frame (frame wmb) (1 + num_arrays wmb) in
         (if fr = None then Some (Return (Err PIO_ENOMEM)) else None, wmb\<lparr>frame := fr\<rparr>, []))
      else (None, wmb, []))"

text \<open>
  The default fill value of a type, chosen by the chain of comparisons on
  \<^verbatim>\<open>iodesc->mpitype\<close>; the values \<^verbatim>\<open>PIO_FILL_*\<close> are the parameter \<open>PIO_FILL\<close>.
\<close>

definition default_fill :: "extern \<Rightarrow> mpi_type \<Rightarrow> byte list option" where
  "default_fill ext vtype =
     (if vtype = MPI_BYTE then Some (PIO_FILL ext MPI_BYTE)
      else if vtype = MPI_CHAR then Some (PIO_FILL ext MPI_CHAR)
      else if vtype = MPI_SHORT then Some (PIO_FILL ext MPI_SHORT)
      else if vtype = MPI_INT then Some (PIO_FILL ext MPI_INT)
      else if vtype = MPI_FLOAT then Some (PIO_FILL ext MPI_FLOAT)
      else if vtype = MPI_DOUBLE then Some (PIO_FILL ext MPI_DOUBLE)
      else if NETCDF4 ext \<and> vtype = MPI_UNSIGNED_CHAR then Some (PIO_FILL ext MPI_UNSIGNED_CHAR)
      else if NETCDF4 ext \<and> vtype = MPI_UNSIGNED_SHORT then Some (PIO_FILL ext MPI_UNSIGNED_SHORT)
      else if NETCDF4 ext \<and> vtype = MPI_UNSIGNED then Some (PIO_FILL ext MPI_UNSIGNED)
      else if NETCDF4 ext \<and> vtype = MPI_LONG_LONG then Some (PIO_FILL ext MPI_LONG_LONG)
      else if NETCDF4 ext \<and> vtype = MPI_UNSIGNED_LONG_LONG
        then Some (PIO_FILL ext MPI_UNSIGNED_LONG_LONG)
      else None)"

definition wd_fill :: "extern \<Rightarrow> io_desc \<Rightarrow> byte list option \<Rightarrow> wmulti_buffer
    \<Rightarrow> outcome option \<times> wmulti_buffer \<times> event list" where
  "wd_fill ext iodesc fillv wmb =
     (if needsfill iodesc then
        (let msize = mpitype_size iodesc;
             sz = msize * (1 + num_arrays wmb) in
         case bgetr ext A_fillvalue (fillvalue wmb) sz of
           None \<Rightarrow> (Some (Return (Err PIO_ENOMEM)), wmb\<lparr>fillvalue := None\<rparr>, [Ev_bget A_fillvalue sz])
         | Some fb \<Rightarrow>
             (let wmb = wmb\<lparr>fillvalue := Some fb\<rparr>;
                  src = (case fillv of Some u \<Rightarrow> Some u | None \<Rightarrow> default_fill ext (mpitype iodesc)) in
              case src of
                None \<Rightarrow> (Some (Return (Err PIO_EBADTYPE)), wmb, [Ev_bget A_fillvalue sz])
              | Some u \<Rightarrow>
                  (case memcpy fb (msize * num_arrays wmb) u 0 msize of
                     None \<Rightarrow> (Some Undefined, wmb, [Ev_bget A_fillvalue sz])
                   | Some fb \<Rightarrow> (None, wmb\<lparr>fillvalue := Some fb\<rparr>, [Ev_bget A_fillvalue sz]))))
      else (None, wmb, []))"

text \<open>
  The last lines: \<^verbatim>\<open>wmb->arraylen\<close>, \<^verbatim>\<open>wmb->vid[wmb->num_arrays]\<close>, the copy of the user
  data to \<^verbatim>\<open>wmb->data + arraylen * mpitype_size * num_arrays\<close>, the frame, and
  \<^verbatim>\<open>wmb->num_arrays++\<close>. A store outside an array is undefined behaviour.
\<close>

definition set_int :: "int list option \<Rightarrow> int \<Rightarrow> int \<Rightarrow> int list option" where
  "set_int xs i v =
     (case xs of None \<Rightarrow> None
      | Some ys \<Rightarrow> if 0 \<le> i \<and> nat i < length ys then Some (ys[nat i := v]) else None)"

definition wd_copy :: "io_desc \<Rightarrow> var_desc \<Rightarrow> nat \<Rightarrow> int \<Rightarrow> int \<Rightarrow> byte list \<Rightarrow> wmulti_buffer
    \<Rightarrow> outcome option \<times> wmulti_buffer \<times> event list" where
  "wd_copy iodesc vdesc n varid al array wmb =
     (let na = num_arrays wmb;
          msize = mpitype_size iodesc;
          wmb = wmb\<lparr>arraylen := al\<rparr> in
      case set_int (vid wmb) na varid of
        None \<Rightarrow> (Some Undefined, wmb, [])
      | Some v \<Rightarrow>
          (let wmb = wmb\<lparr>vid := Some v\<rparr>;
               copied =
                 (if al > 0 then
                    (case data wmb of None \<Rightarrow> None
                     | Some d \<Rightarrow>
                         (case memcpy d (al * msize * na) array 0 (al * msize) of
                            None \<Rightarrow> None
                          | Some d \<Rightarrow> Some (wmb\<lparr>data := Some d\<rparr>)))
                  else Some wmb) in
           case copied of
             None \<Rightarrow> (Some Undefined, wmb, [])
           | Some wmb \<Rightarrow>
               (let evs = [Ev_append n varid (bytes_at array 0 (al * msize))] in
                if frame wmb \<noteq> None then
                  (case set_int (frame wmb) na (vrecord vdesc) of
                     None \<Rightarrow> (Some Undefined, wmb, evs)
                   | Some fr \<Rightarrow> (None, wmb\<lparr>frame := Some fr, num_arrays := na + 1\<rparr>, evs))
                else (None, wmb\<lparr>num_arrays := na + 1\<rparr>, evs))))"

text \<open>
  The parts of the function: the preparation (fill value and buffer node), the flush
  decision with the all-reduce and the flush, and the append (memory for the new entry,
  then the copy of the payload).
\<close>

definition wd_prepare :: "extern \<Rightarrow> int \<Rightarrow> int \<Rightarrow> wd_state \<Rightarrow> outcome option \<times> wd_state" where
  "wd_prepare ext varid i w = andthen (wd_fillvalue ext varid w) (wd_locate ext varid i)"

definition wd_sync ::
  "extern \<Rightarrow> pio_state \<Rightarrow> io_desc \<Rightarrow> int \<Rightarrow> wd_state \<Rightarrow> outcome option \<times> wd_state" where
  "wd_sync ext st iodesc varid w =
     andthen (andthen (wd_decide ext st iodesc w) (wd_recsz ext varid)) (wd_flush ext)"

definition wd_reserve ::
  "extern \<Rightarrow> io_desc \<Rightarrow> int \<Rightarrow> byte list option \<Rightarrow> wd_state \<Rightarrow> outcome option \<times> wd_state" where
  "wd_reserve ext iodesc varid fillv w =
     andthen (andthen (andthen (andthen
       (wd_pend varid w)
       (\<lambda>w. on_wmb (wd_data ext iodesc (w_alen w)) w))
       (on_wmb (wd_vid ext)))
       (\<lambda>w. on_wmb (wd_frame ext (varlist (w_file w) varid)) w))
       (on_wmb (wd_fill ext iodesc fillv))"

definition wd_append ::
  "extern \<Rightarrow> io_desc \<Rightarrow> int \<Rightarrow> byte list \<Rightarrow> byte list option \<Rightarrow> wd_state
   \<Rightarrow> outcome option \<times> wd_state" where
  "wd_append ext iodesc varid array fillv w =
     andthen (wd_reserve ext iodesc varid fillv w)
       (\<lambda>w. on_wmb (wd_copy iodesc (varlist (w_file w) varid) (w_n w) varid (w_alen w) array) w)"

definition wd_run ::
  "extern \<Rightarrow> pio_state \<Rightarrow> io_desc \<Rightarrow> int \<Rightarrow> int \<Rightarrow> byte list \<Rightarrow> byte list option
   \<Rightarrow> wd_state \<Rightarrow> outcome option \<times> wd_state" where
  "wd_run ext st iodesc varid i array fillv w =
     andthen (andthen (wd_prepare ext varid i w) (wd_sync ext st iodesc varid))
       (wd_append ext iodesc varid array fillv)"

definition PIOc_write_darray ::
  "extern \<Rightarrow> pio_state \<Rightarrow> int \<Rightarrow> int \<Rightarrow> int \<Rightarrow> int \<Rightarrow> byte list \<Rightarrow> byte list option
   \<Rightarrow> outcome \<times> pio_state \<times> event list" where
  "PIOc_write_darray ext st ncid varid i al array fillv =
     (case files st ncid of
        None \<Rightarrow> (Return (Err PIO_EBADID), st, [])
      | Some f \<Rightarrow>
          if mode f AND PIO_WRITE ext = 0 then (Return (Err PIO_EPERM), st, [])
          else
            (case iodescs st i of
               None \<Rightarrow> (Return (Err PIO_EBADID), st, [])
             | Some iodesc \<Rightarrow>
                 if al < ndof iodesc then (Return (Err PIO_EINVAL), st, [])
                 else
                   (let al = (if al > ndof iodesc then ndof iodesc else al);
                        (r, w) = wd_run ext st iodesc varid i array fillv
                                   \<lparr>w_file = f, w_n = 0, w_alen = al, w_needsflush = 0,
                                    w_trace = []\<rparr>
                    in (case r of None \<Rightarrow> Return NOERR | Some oc \<Rightarrow> oc,
                        st\<lparr>files := (files st)(ncid := Some (w_file w))\<rparr>,
                        w_trace w))))"

subsection \<open>PIOc\_write\_darray\_multi\<close>

record wm_state =
  m_file :: file_desc
  m_fndims :: int
  m_trace :: "event list"

definition logged :: "wm_state \<Rightarrow> event list \<Rightarrow> wm_state" where
  "logged m evs = m\<lparr>m_trace := m_trace m @ evs\<rparr>"

text \<open>
  Modelled from the spec: \<^verbatim>\<open>pioassert\<close> is defined outside the sources. After section 3
  of the specification (the write path asserts that no \<^verbatim>\<open>iobuf\<close> is outstanding) a failed
  assertion ends the call; when assertions are compiled out (\<open>NDEBUG\<close>) the call goes on.
\<close>

definition pioassert :: "extern \<Rightarrow> bool \<Rightarrow> string \<Rightarrow> outcome option" where
  "pioassert ext expression msg =
     (if expression \<or> NDEBUG ext then None else Some (Assert_failed msg))"

text \<open>
  Modelled from the spec: \<^verbatim>\<open>flush_output_buffer\<close> is defined outside the sources. After
  the comments of \<^verbatim>\<open>PIOc_write_darray_multi\<close> and section 9 of the specification, the
  buffers handed to the nonblocking backend (\<^verbatim>\<open>iobuf\<close> and every \<^verbatim>\<open>fillbuf\<close>) are
  released when it flushes, which it does when forced or when the pending bytes exceed the
  limit.
\<close>

definition flush_output_buffer :: "extern \<Rightarrow> file_desc \<Rightarrow> bool \<Rightarrow> int \<times> file_desc" where
  "flush_output_buffer ext f force =
     (flush_output_buffer_rc ext force,
      if force \<or> usage_over_limit ext
      then f\<lparr>iobuf := None, varlist := (\<lambda>v. (varlist f v)\<lparr>fillbuf := None\<rparr>)\<rparr>
      else f)"

text \<open>
  \<^verbatim>\<open>for (int v = 0; v < nvars; v++)
      if (varids[v] < 0 || varids[v] > PIO_MAX_VARS) return pio_err(ios, file, PIO_EINVAL, ...);\<close>
  over the first \<open>n\<close> entries; reading past the end of the array is undefined.
\<close>

fun check_varids :: "int \<Rightarrow> int list \<Rightarrow> nat \<Rightarrow> outcome option" where
  "check_varids mx vs 0 = None"
| "check_varids mx [] (Suc n) = Some Undefined"
| "check_varids mx (v # vs) (Suc n) =
     (if v < 0 \<or> v > mx then Some (Return (Err PIO_EINVAL)) else check_varids mx vs n)"

text \<open>The chain \<^verbatim>\<open>if (!mpierr) mpierr = MPI_Bcast(...)\<close> over the parameters.\<close>

fun bcast_params :: "extern \<Rightarrow> int \<Rightarrow> bcast_item list \<Rightarrow> int \<times> event list" where
  "bcast_params ext mpierr [] = (mpierr, [])"
| "bcast_params ext mpierr (b # bs) =
     (if mpierr = 0
      then (let (e, evs) = bcast_params ext (MPI_Bcast_rc ext b) bs in (e, Ev_bcast b # evs))
      else bcast_params ext mpierr bs)"

definition wm_varndims :: "extern \<Rightarrow> int \<Rightarrow> wm_state \<Rightarrow> outcome option \<times> wm_state" where
  "wm_varndims ext varid0 m =
     (let ios = iosystem (m_file m) in
      if \<not> async ios \<or> \<not> ioproc ios then
        (let (ierr, nd) = PIOc_inq_varndims ext varid0 in
         if ierr \<noteq> 0 then (Some (Return (Netcdf ierr)), m)
         else (None, m\<lparr>m_fndims := nd\<rparr>))
      else (None, m))"

definition wm_async :: "extern \<Rightarrow> bool \<Rightarrow> bool \<Rightarrow> wm_state \<Rightarrow> outcome option \<times> wm_state" where
  "wm_async ext frame_present fillvalue_present m =
     (let ios = iosystem (m_file m) in
      if async ios then
        (let (mpierr, evs) =
               (if \<not> ioproc ios then
                  (let sent = compmaster_is_root ios;
                       mpierr = (if sent then MPI_Send_rc ext else 0);
                       (mpierr, evs) =
                         bcast_params ext mpierr
                           ([B_ncid, B_nvars, B_varids, B_ioid, B_arraylen, B_array, B_frame_present]
                            @ (if frame_present then [B_frame] else [])
                            @ [B_fillvalue_present]
                            @ (if fillvalue_present then [B_fillvalue] else [])
                            @ [B_flushtodisk])
                   in (mpierr, (if sent then [Ev_send_msg] else []) @ evs))
                else (0, []));
             m = logged m evs;
             (mpierr2, mpierr) = MPI_Bcast_mpierr ext mpierr in
         if mpierr2 \<noteq> 0 then (Some (Return (Mpi mpierr2)), m)
         else if mpierr \<noteq> 0 then (Some (Return (Mpi mpierr)), m)
         else (None, m\<lparr>m_fndims := snd (MPI_Bcast_fndims ext (m_fndims m))\<rparr>))
      else (None, m))"

text \<open>
  \<^verbatim>\<open>if (file->iotype == PIO_IOTYPE_PNETCDF && file->iobuf) flush_output_buffer(file, 1, 0);
  pioassert(!file->iobuf, "buffer overwrite",__FILE__, __LINE__);\<close>
\<close>

definition wm_preflush :: "extern \<Rightarrow> wm_state \<Rightarrow> outcome option \<times> wm_state" where
  "wm_preflush ext m =
     (let f = m_file m;
          m = (if iotype f = PIO_IOTYPE_PNETCDF \<and> iobuf f \<noteq> None
               then logged (m\<lparr>m_file := snd (flush_output_buffer ext f True)\<rparr>)
                      [Ev_flush_output_buffer True]
               else m)
      in (pioassert ext (iobuf (m_file m) = None) ''buffer overwrite'', m))"

text \<open>
  The two fill loops
  \<^verbatim>\<open>for (int nv = 0; nv < nvars; nv++)
      for (int i = 0; i < cnt; i++)
          memcpy(&((char *)buf)[mpitype_size * (i + nv * cnt)],
                 &((char *)fillvalue)[nv * mpitype_size], mpitype_size);\<close>
  on a block and a fill-value array that are not \<^verbatim>\<open>NULL\<close>.
\<close>

definition fill_one :: "int \<Rightarrow> byte list \<Rightarrow> int \<Rightarrow> int \<Rightarrow> byte list option \<Rightarrow> int \<Rightarrow> byte list option" where
  "fill_one msize fv cnt nv b i =
     (case b of None \<Rightarrow> None
      | Some d \<Rightarrow> memcpy d (msize * (i + nv * cnt)) fv (nv * msize) msize)"

definition fill_var :: "int \<Rightarrow> byte list \<Rightarrow> int \<Rightarrow> byte list option \<Rightarrow> int \<Rightarrow> byte list option" where
  "fill_var msize fv cnt b nv = foldl (fill_one msize fv cnt nv) b [0..cnt - 1]"

definition fill_loops :: "int \<Rightarrow> byte list \<Rightarrow> int \<Rightarrow> int \<Rightarrow> byte list \<Rightarrow> byte list option" where
  "fill_loops msize fv cnt nvars d = foldl (fill_var msize fv cnt) (Some d) [0..nvars - 1]"

text \<open>
  The loops on pointers that may be \<^verbatim>\<open>NULL\<close>: with no iteration nothing is touched;
  otherwise a \<^verbatim>\<open>NULL\<close> block or fill-value array, or a copy outside them, is undefined
  behaviour (the outer \<open>None\<close>).
\<close>

definition fill_values ::
  "int \<Rightarrow> byte list option \<Rightarrow> int \<Rightarrow> int \<Rightarrow> byte list option \<Rightarrow> byte list option option" where
  "fill_values msize fv cnt nvars buf =
     (if nvars \<le> 0 \<or> cnt \<le> 0 then Some buf
      else case (buf, fv) of
             (Some d, Some u) \<Rightarrow>
               (case fill_loops msize u cnt nvars d of None \<Rightarrow> None | Some d \<Rightarrow> Some (Some d))
           | _ \<Rightarrow> None)"

text \<open>Allocation of \<^verbatim>\<open>file->iobuf\<close>, with the fill values for the box rearranger.\<close>

definition wm_iobuf ::
  "extern \<Rightarrow> io_desc \<Rightarrow> int \<Rightarrow> byte list option \<Rightarrow> wm_state \<Rightarrow> outcome option \<times> wm_state" where
  "wm_iobuf ext iodesc nvars fillv m =
     (let f = m_file m;
          rlen = maxiobuflen iodesc * nvars in
      if rlen > 0 then
        (let sz = mpitype_size iodesc * rlen;
             m = logged m [Ev_bget A_iobuf sz] in
         case bget ext A_iobuf sz of
           None \<Rightarrow> (Some (Return (Err PIO_ENOMEM)), m\<lparr>m_file := f\<lparr>iobuf := None\<rparr>\<rparr>)
         | Some b \<Rightarrow>
             if needsfill iodesc \<and> rearranger iodesc = PIO_REARR_BOX then
               (case fill_values (mpitype_size iodesc) fillv (maxiobuflen iodesc) nvars (Some b) of
                  None \<Rightarrow> (Some Undefined, m\<lparr>m_file := f\<lparr>iobuf := Some b\<rparr>\<rparr>)
                | Some b \<Rightarrow> (None, m\<lparr>m_file := f\<lparr>iobuf := b\<rparr>\<rparr>))
             else (None, m\<lparr>m_file := f\<lparr>iobuf := Some b\<rparr>\<rparr>))
      else if iotype f = PIO_IOTYPE_PNETCDF \<and> ioproc (iosystem f) then
        (let m = logged m [Ev_bget A_token 1] in
         case bget ext A_token 1 of
           None \<Rightarrow> (Some (Return (Err PIO_ENOMEM)), m\<lparr>m_file := f\<lparr>iobuf := None\<rparr>\<rparr>)
         | Some b \<Rightarrow> (None, m\<lparr>m_file := f\<lparr>iobuf := Some b\<rparr>\<rparr>))
      else (None, m))"

definition wm_rearrange :: "extern \<Rightarrow> byte list \<Rightarrow> int \<Rightarrow> wm_state \<Rightarrow> outcome option \<times> wm_state" where
  "wm_rearrange ext array nvars m =
     (let f = m_file m;
          (ierr, b) = rearrange_comp2io ext array (iobuf f) nvars;
          m = logged (m\<lparr>m_file := f\<lparr>iobuf := b\<rparr>\<rparr>) [Ev_rearrange (iobuf f) nvars] in
      if ierr \<noteq> 0 then (Some (Return (Callee ierr)), m) else (None, m))"

text \<open>
  The dispatch \<^verbatim>\<open>switch (file->iotype)\<close>, for the data and for the fill pass. The event
  records the two buffers the backend is handed: \<^verbatim>\<open>file->iobuf\<close> and \<^verbatim>\<open>vdesc0->fillbuf\<close>.
\<close>

definition wm_write :: "extern \<Rightarrow> int \<Rightarrow> darray_mode \<Rightarrow> wm_state \<Rightarrow> outcome option \<times> wm_state" where
  "wm_write ext varid0 md m =
     (let f = m_file m;
          fb = fillbuf (varlist f varid0) in
      if iotype f = PIO_IOTYPE_NETCDF4P \<or> iotype f = PIO_IOTYPE_PNETCDF then
        (let ierr = write_darray_multi_par ext md;
             m = logged m [Ev_write_par md (iobuf f) fb] in
         if ierr \<noteq> 0 then (Some (Return (Callee ierr)), m) else (None, m))
      else if iotype f = PIO_IOTYPE_NETCDF4C \<or> iotype f = PIO_IOTYPE_NETCDF then
        (let ierr = write_darray_multi_serial ext md;
             m = logged m [Ev_write_serial md (iobuf f) fb] in
         if ierr \<noteq> 0 then (Some (Return (Callee ierr)), m) else (None, m))
      else (Some (Return (Err PIO_EBADIOTYPE)), m))"

definition wm_free_iobuf :: "wm_state \<Rightarrow> outcome option \<times> wm_state" where
  "wm_free_iobuf m =
     (let f = m_file m in
      if iotype f \<noteq> PIO_IOTYPE_PNETCDF \<and> iobuf f \<noteq> None
      then (None, logged (m\<lparr>m_file := f\<lparr>iobuf := None\<rparr>\<rparr>) [Ev_brel A_iobuf])
      else (None, m))"

text \<open>
  The hole-fill pass. First the buffer:
  \<^verbatim>\<open>if (ios->io_rank == 0)
      vdesc0->fillbuf = bget(iodesc->maxholegridsize * iodesc->mpitype_size * nvars);
  else if (iodesc->holegridsize > 0)
      vdesc0->fillbuf = bget(iodesc->holegridsize * iodesc->mpitype_size * nvars);\<close>
  The result of \<^verbatim>\<open>bget\<close> is not checked here.
\<close>

definition wm_fillbuf :: "extern \<Rightarrow> io_desc \<Rightarrow> int \<Rightarrow> int \<Rightarrow> wm_state \<Rightarrow> wm_state" where
  "wm_fillbuf ext iodesc varid0 nvars m =
     (let f = m_file m;
          vdesc0 = varlist f varid0;
          szm = maxholegridsize iodesc * mpitype_size iodesc * nvars;
          szh = holegridsize iodesc * mpitype_size iodesc * nvars in
      if io_rank (iosystem f) = 0
      then logged (m\<lparr>m_file := set_var f varid0 (vdesc0\<lparr>fillbuf := bget ext A_fillbuf szm\<rparr>)\<rparr>)
             [Ev_bget A_fillbuf szm]
      else if holegridsize iodesc > 0
      then logged (m\<lparr>m_file := set_var f varid0 (vdesc0\<lparr>fillbuf := bget ext A_fillbuf szh\<rparr>)\<rparr>)
             [Ev_bget A_fillbuf szh]
      else m)"

text \<open>The fill loops of the pass run over \<^verbatim>\<open>holegridsize\<close> elements per variable on every task.\<close>

definition wm_fill_holes ::
  "io_desc \<Rightarrow> int \<Rightarrow> int \<Rightarrow> byte list option \<Rightarrow> wm_state \<Rightarrow> outcome option \<times> wm_state" where
  "wm_fill_holes iodesc varid0 nvars fillv m =
     (let f = m_file m;
          vdesc0 = varlist f varid0 in
      case fill_values (mpitype_size iodesc) fillv (holegridsize iodesc) nvars (fillbuf vdesc0) of
        None \<Rightarrow> (Some Undefined, m)
      | Some fb \<Rightarrow> (None, m\<lparr>m_file := set_var f varid0 (vdesc0\<lparr>fillbuf := fb\<rparr>)\<rparr>))"

text \<open>
  \<^verbatim>\<open>if (file->iotype != PIO_IOTYPE_PNETCDF)
      if (vdesc0->fillbuf) { brel(vdesc0->fillbuf); vdesc0->fillbuf = NULL; }\<close>
\<close>

definition wm_free_fillbuf :: "int \<Rightarrow> wm_state \<Rightarrow> outcome option \<times> wm_state" where
  "wm_free_fillbuf varid0 m =
     (let f = m_file m;
          vdesc0 = varlist f varid0 in
      if iotype f \<noteq> PIO_IOTYPE_PNETCDF \<and> fillbuf vdesc0 \<noteq> None
      then (None, logged (m\<lparr>m_file := set_var f varid0 (vdesc0\<lparr>fillbuf := None\<rparr>)\<rparr>)
                    [Ev_brel A_fillbuf])
      else (None, m))"

text \<open>
  The pass as a whole, under \<^verbatim>\<open>if (iodesc->rearranger == PIO_REARR_SUBSET && iodesc->needsfill)\<close>
  and after \<^verbatim>\<open>pioassert(!vdesc0->fillbuf, "buffer overwrite", ...)\<close>.
\<close>

definition wm_holefill ::
  "extern \<Rightarrow> io_desc \<Rightarrow> int \<Rightarrow> int \<Rightarrow> byte list option \<Rightarrow> wm_state \<Rightarrow> outcome option \<times> wm_state" where
  "wm_holefill ext iodesc varid0 nvars fillv m =
     (if rearranger iodesc = PIO_REARR_SUBSET \<and> needsfill iodesc then
        (case pioassert ext (fillbuf (varlist (m_file m) varid0) = None) ''buffer overwrite'' of
           Some oc \<Rightarrow> (Some oc, m)
         | None \<Rightarrow>
             andthen (andthen
               (wm_fill_holes iodesc varid0 nvars fillv (wm_fillbuf ext iodesc varid0 nvars m))
               (wm_write ext varid0 DARRAY_FILL))
               (wm_free_fillbuf varid0))
      else (None, m))"

text \<open>
  The end of the call: the flush of the nonblocking backend, or the reset of the
  pending-byte counters of the variables written.
\<close>

definition wm_complete :: "extern \<Rightarrow> int list \<Rightarrow> int \<Rightarrow> bool \<Rightarrow> wm_state \<Rightarrow> outcome option \<times> wm_state" where
  "wm_complete ext varids nvars flushtodisk m =
     (let f = m_file m in
      if ioproc (iosystem f) \<and> iotype f = PIO_IOTYPE_PNETCDF then
        (let (ierr, f) = flush_output_buffer ext f flushtodisk;
             m = logged (m\<lparr>m_file := f\<rparr>) [Ev_flush_output_buffer flushtodisk] in
         if ierr \<noteq> 0 then (Some (Return (Callee ierr)), m) else (None, m))
      else
        (let f = foldl (\<lambda>f v. set_var f v ((varlist f v)\<lparr>v_wb_pend := 0\<rparr>)) f
                   (take (nat nvars) varids)
         in (None, m\<lparr>m_file := f\<lparr>wb_pend := 0\<rparr>\<rparr>)))"

text \<open>
  The parts of the function: the exchange of the parameters and the check of the
  outstanding buffer, the scratch buffer, the rearrangement and the data pass, the
  hole-fill pass and the completion.
\<close>

definition wm_setup :: "extern \<Rightarrow> int \<Rightarrow> bool \<Rightarrow> bool \<Rightarrow> wm_state \<Rightarrow> outcome option \<times> wm_state" where
  "wm_setup ext varid0 frame_present fillvalue_present m =
     andthen (andthen (wm_varndims ext varid0 m) (wm_async ext frame_present fillvalue_present))
       (wm_preflush ext)"

definition wm_data_pass ::
  "extern \<Rightarrow> int \<Rightarrow> byte list \<Rightarrow> int \<Rightarrow> wm_state \<Rightarrow> outcome option \<times> wm_state" where
  "wm_data_pass ext varid0 array nvars m =
     andthen (andthen (wm_rearrange ext array nvars m) (wm_write ext varid0 DARRAY_DATA))
       wm_free_iobuf"

definition wm_run ::
  "extern \<Rightarrow> io_desc \<Rightarrow> int list \<Rightarrow> int \<Rightarrow> byte list \<Rightarrow> bool \<Rightarrow> byte list option \<Rightarrow> bool
   \<Rightarrow> wm_state \<Rightarrow> outcome option \<times> wm_state" where
  "wm_run ext iodesc varids nvars array frame_present fillv flushtodisk m =
     andthen (andthen (andthen (andthen
       (wm_setup ext (hd varids) frame_present (fillv \<noteq> None) m)
       (wm_iobuf ext iodesc nvars fillv))
       (wm_data_pass ext (hd varids) array nvars))
       (wm_holefill ext iodesc (hd varids) nvars fillv))
       (wm_complete ext varids nvars flushtodisk)"

definition PIOc_write_darray_multi ::
  "extern \<Rightarrow> pio_state \<Rightarrow> int \<Rightarrow> int list option \<Rightarrow> int \<Rightarrow> int \<Rightarrow> int \<Rightarrow> byte list
   \<Rightarrow> int list option \<Rightarrow> byte list option \<Rightarrow> bool \<Rightarrow> outcome \<times> pio_state \<times> event list" where
  "PIOc_write_darray_multi ext st ncid varids i nvars al array frm fillv flushtodisk =
     (case files st ncid of
        None \<Rightarrow> (Return (Err PIO_EBADID), st, [])
      | Some f \<Rightarrow>
          if nvars \<le> 0 \<or> varids = None then (Return (Err PIO_EINVAL), st, [])
          else
            (case check_varids (PIO_MAX_VARS ext) (the varids) (nat nvars) of
               Some oc \<Rightarrow> (oc, st, [])
             | None \<Rightarrow>
                 if mode f AND PIO_WRITE ext = 0 then (Return (Err PIO_EPERM), st, [])
                 else
                   (case iodescs st i of
                      None \<Rightarrow> (Return (Err PIO_EBADID), st, [])
                    | Some iodesc \<Rightarrow>
                        (case pioassert ext
                                (rearranger iodesc = PIO_REARR_BOX
                                 \<or> rearranger iodesc = PIO_REARR_SUBSET) ''unknown rearranger'' of
                           Some oc \<Rightarrow> (oc, st, [])
                         | None \<Rightarrow>
                             (let (r, m) = wm_run ext iodesc (the varids) nvars array (frm \<noteq> None)
                                             fillv flushtodisk
                                             \<lparr>m_file = f, m_fndims = 0, m_trace = []\<rparr>
                              in (case r of None \<Rightarrow> Return NOERR | Some oc \<Rightarrow> oc,
                                  st\<lparr>files := (files st)(ncid := Some (m_file m))\<rparr>,
                                  m_trace m))))))"

subsection \<open>Auxiliary notions for the analysis of the write path\<close>

definition recordvar_of :: "file_desc \<Rightarrow> int \<Rightarrow> int" where
  "recordvar_of f varid = (if vrecord (varlist f varid) \<ge> 0 then 1 else 0)"

definition cached_arrays :: "file_desc \<Rightarrow> int \<Rightarrow> int \<Rightarrow> int" where
  "cached_arrays f i r =
     (let wmb = wmb_at f (wmb_search (buffer f) (buffer_next f) i r)
      in if ioid wmb = i \<and> recordvar wmb = r then num_arrays wmb else 0)"

fun tail_ev :: "event \<Rightarrow> bool" where
  "tail_ev (Ev_bget s n) = True"
| "tail_ev (Ev_append n v b) = True"
| "tail_ev e = False"

definition extends_tail :: "wd_state \<Rightarrow> wd_state \<Rightarrow> bool" where
  "extends_tail w w' =
     (\<exists>evs. w_trace w' = w_trace w @ evs \<and> (\<forall>e\<in>set evs. tail_ev e)
        \<and> w_n w' = w_n w \<and> w_alen w' = w_alen w)"

definition flush_code :: "extern \<Rightarrow> pio_state \<Rightarrow> io_desc \<Rightarrow> int \<Rightarrow> int \<Rightarrow> int" where
  "flush_code ext st iodesc na al =
     local_needsflush ext st iodesc
       \<lparr>ioid = 0, recordvar = 0, num_arrays = na, arraylen = 0, vid = None, frame = None,
        fillvalue = None, data = None\<rparr> al"


definition fails :: "outcome option \<Rightarrow> bool" where
  "fails r = (r \<noteq> Some (Return NOERR))"

text \<open>
  The events that neither hand a buffer to the rearranger or to a fill write nor release the
  fill buffer: everything but \<^verbatim>\<open>rearrange_comp2io\<close>, the dispatches with mode
  \<^verbatim>\<open>DARRAY_FILL\<close> and \<^verbatim>\<open>brel(vdesc0->fillbuf)\<close>.
\<close>

fun plain :: "event \<Rightarrow> bool" where
  "plain (Ev_rearrange b n) = False"
| "plain (Ev_write_par md ib fb) = (md = DARRAY_DATA)"
| "plain (Ev_write_serial md ib fb) = (md = DARRAY_DATA)"
| "plain (Ev_brel s) = (s \<noteq> A_fillbuf)"
| "plain e = True"

text \<open>
  A part of the multi-variable write that only adds plain events and keeps the backend and
  the I/O system of the file.
\<close>

definition wm_quiet :: "wm_state \<Rightarrow> wm_state \<Rightarrow> bool" where
  "wm_quiet m m' =
     (\<exists>evs. m_trace m' = m_trace m @ evs \<and> (\<forall>e\<in>set evs. plain e)
        \<and> iotype (m_file m') = iotype (m_file m) \<and> iosystem (m_file m') = iosystem (m_file m))"

subsection \<open>A concrete library state\<close>

definition ext0 :: extern where
  "ext0 =
     \<lparr>PIO_MAX_VARS = 8192, PIO_WRITE = 1, PIO_MAX_CACHED_IO_REGIONS = 16, NDEBUG = False,
      NETCDF4 = True, PIO_FILL = (\<lambda>t. [255, 255, 255, 255, 255, 255, 255, 255]),
      bstats = (0, 1000000, 1000000), alloc_ok = (\<lambda>s. True),
      comp_comm_needsflush = [0, 0, 0], MPI_Allreduce_rc = 0, MPI_Send_rc = 0,
      MPI_Bcast_rc = (\<lambda>b. 0), MPI_Bcast_mpierr = (\<lambda>e. (0, e)),
      MPI_Bcast_fndims = (\<lambda>n. (0, n)), PIOc_inq_varndims = (\<lambda>v. (0, 2)),
      PIOc_inq_vartype = (\<lambda>v. (0, 4)), PIOc_inq_type = (\<lambda>t. (0, 2)),
      PIOc_inq_var_fill = (\<lambda>v. (0, 0, [9, 9])), calc_var_rec_sz = (\<lambda>v. (0, 8)),
      flush_buffer = (\<lambda>f n d. (0, wmb_update f n
         ((wmb_at f n)\<lparr>num_arrays := 0, vid := None, frame := None, fillvalue := None,
                         data := None\<rparr>))),
      flush_output_buffer_rc = (\<lambda>d. 0), usage_over_limit = False,
      rearrange_comp2io = (\<lambda>a b n. (0, b)),
      write_darray_multi_par = (\<lambda>m. 0), write_darray_multi_serial = (\<lambda>m. 0)\<rparr>"

definition iodesc0 :: io_desc where
  "iodesc0 =
     \<lparr>rearranger = PIO_REARR_BOX, ndof = 2, llen = 3, maxiobuflen = 3, mpitype = MPI_SHORT,
      mpitype_size = 2, piotype_size = 2, maxregions = 8, maxfillregions = 1,
      holegridsize = 0, maxholegridsize = 0, needsfill = False\<rparr>"

definition vdesc0 :: var_desc where
  "vdesc0 =
     \<lparr>vrecord = - 1, v_fillvalue = None, fillbuf = None, v_wb_pend = 0, vrsize = 0,
      pio_type = 0, type_size = 0, use_fill = 0\<rparr>"

definition wmb0 :: wmulti_buffer where
  "wmb0 =
     \<lparr>ioid = 0, recordvar = 0, num_arrays = 0, arraylen = 0, vid = None, frame = None,
      fillvalue = None, data = None\<rparr>"

definition ios0 :: iosystem_desc where
  "ios0 = \<lparr>async = False, ioproc = True, io_rank = 0, compmaster_is_root = False\<rparr>"

definition file0 :: file_desc where
  "file0 =
     \<lparr>iosystem = ios0, iotype = PIO_IOTYPE_NETCDF, mode = 1, iobuf = None,
      varlist = (\<lambda>v. vdesc0), buffer = wmb0, buffer_next = [], wb_pend = 0\<rparr>"

definition st0 :: pio_state where
  "st0 =
     \<lparr>files = (\<lambda>n. if n = 7 then Some file0 else None),
      iodescs = (\<lambda>i. if i = 5 then Some iodesc0 else None),
      pio_buffer_size_limit = 10485760\<rparr>"



text \<open>The same library with a decomposition whose rearranger is neither of the two known ones.\<close>

definition iodesc_unknown :: io_desc where
  "iodesc_unknown = iodesc0\<lparr>rearranger := PIO_REARR_unknown\<rparr>"

definition st_unknown :: pio_state where
  "st_unknown = st0\<lparr>iodescs := (\<lambda>i. if i = 5 then Some iodesc_unknown else None)\<rparr>"

text \<open>The same library with the file opened read-only.\<close>

definition st_readonly :: pio_state where
  "st_readonly = st0\<lparr>files := (\<lambda>n. if n = 7 then Some (file0\<lparr>mode := 0\<rparr>) else None)\<rparr>"

text \<open>The same library with a box decomposition that asks for fill values.\<close>

definition iodesc_fill :: io_desc where
  "iodesc_fill = iodesc0\<lparr>needsfill := True\<rparr>"

definition st_fill :: pio_state where
  "st_fill = st0\<lparr>iodescs := (\<lambda>i. if i = 5 then Some iodesc_fill else None)\<rparr>"

text \<open>
  The same library with a subset decomposition that has one hole on this task and at most
  two on any task.
\<close>

definition iodesc_subset :: io_desc where
  "iodesc_subset =
     iodesc0\<lparr>rearranger := PIO_REARR_SUBSET, needsfill := True, holegridsize := 1,
             maxholegridsize := 2\<rparr>"

definition st_subset :: pio_state where
  "st_subset = st0\<lparr>iodescs := (\<lambda>i. if i = 5 then Some iodesc_subset else None)\<rparr>"

section \<open>Properties of the exchange engine\<close>

subsection \<open>The receive window of pio\_swapm\<close>

lemma outs_simps [simp]:
  "outs out [] = out" "outs out (c # cs) = outs (outstanding out c) cs"
  "outs out (xs @ ys) = outs (outs out xs) ys"
  by (simp_all add: outs_def)

lemma window_ge: "length out \<le> window out xs"
  by (cases xs) auto

lemma window_append:
  "window out (xs @ ys) = max (window out xs) (window (outs out xs) ys)"
proof (induction xs arbitrary: out)
  case Nil
  show ?case using window_ge [of out ys] by simp
next
  case (Cons c cs)
  then show ?case by (simp add: max.assoc)
qed

lemma fits_length:
  assumes "fits lo hi out"
  shows "length out \<le> 1 + nat (hi - lo)"
proof -
  have "length out = card (set out)"
    using assms by (simp add: fits_def distinct_card)
  also have "\<dots> \<le> card (insert 0 {lo..<hi})"
    using assms by (intro card_mono) (auto simp: fits_def)
  also have "\<dots> \<le> 1 + card {lo..<hi}"
    by (simp add: card_insert_if)
  finally show ?thesis by simp
qed

lemma quiet_simps [simp]:
  "quiet (MPI_Send b n t d tag)" "quiet (MPI_Rsend b n t d tag)" "quiet (MPI_Wait (Hs_rcvid i))"
  "quiet (MPI_Wait (Sndid i))" "quiet (MPI_Irecv b n t d tag (Hs_rcvid i))"
  by (simp_all add: quiet_def)

lemma quiet_outs: "\<forall>c\<in>set cs. quiet c \<Longrightarrow> outs out cs = out"
  by (induction cs arbitrary: out) (auto simp: quiet_def)

lemma quiet_window: "\<forall>c\<in>set cs. quiet c \<Longrightarrow> window out cs = length out"
  by (induction cs arbitrary: out) (auto simp: quiet_def)

lemma send_data_quiet: "\<forall>c\<in>set (send_data a i). quiet c"
  by (auto simp: send_data_def Let_def)

lemma post_hs_quiet: "\<forall>c\<in>set (post_hs a i). quiet c"
  by (auto simp: post_hs_def Let_def)

lemma post_rcv_outs:
  "outs out (post_rcv a i) = (if live a i then List.insert i out else out)"
  by (simp add: post_rcv_def Let_def live_def quiet_def)

lemma post_rcv_window:
  "window out (post_rcv a i) = (if live a i then length (List.insert i out) else length out)"
  by (auto simp: post_rcv_def Let_def live_def List.insert_def)

lemma outs_length_window: "length (outs out xs) \<le> window out xs"
proof (induction xs arbitrary: out)
  case Nil
  show ?case by simp
next
  case (Cons c cs)
  have "length (outs (outstanding out c) cs) \<le> window (outstanding out c) cs"
    by (rule Cons.IH)
  then show ?case by simp
qed

lemma calm_Wait [simp]: "calm (MPI_Wait r)"
proof (cases r)
  case (Rcvid i)
  then show ?thesis by (simp add: calm_def)
qed (simp_all add: calm_def)

lemma calm_window: "\<forall>c\<in>set cs. calm c \<Longrightarrow> window out cs = length out"
proof (induction cs arbitrary: out)
  case Nil
  show ?case by simp
next
  case (Cons c cs)
  then have "window (outstanding out c) cs = length (outstanding out c)" by simp
  moreover have "length (outstanding out c) \<le> length out"
    using Cons.prems by (simp add: calm_def)
  ultimately show ?case by simp
qed

lemma swapm_drain_calm: "\<forall>c\<in>set (concat (map (swapm_drain a) is)). calm c"
  by (auto simp: swapm_drain_def Let_def)

lemma swapm_self_outs: "outs [] (swapm_self a) = []"
  by (simp add: swapm_self_def Let_def)

lemma swapm_self_window: "window [] (swapm_self a) \<le> 1"
  by (simp add: swapm_self_def Let_def)

lemma post_hs_concat_quiet: "\<forall>c\<in>set (concat (map (post_hs a) is)). quiet c"
  using post_hs_quiet by auto

text \<open>The receives posted before the main loop.\<close>

lemma preposted:
  assumes "- 1 \<le> j"
  shows "distinct (outs [] (concat (map (post_rcv a) [0..j])))
     \<and> set (outs [] (concat (map (post_rcv a) [0..j]))) \<subseteq> {0..j}
     \<and> (\<forall>i\<in>set (outs [] (concat (map (post_rcv a) [0..j]))). live a i)
     \<and> window [] (concat (map (post_rcv a) [0..j])) \<le> nat (j + 1)"
  using assms
proof (induction j rule: int_ge_induct)
  case base
  show ?case by simp
next
  case (step j)
  let ?cs = "concat (map (post_rcv a) [0..j])"
  let ?out = "outs [] ?cs"
  have up: "[0..j + 1] = [0..j] @ [j + 1]"
    using step.hyps upto_rec2 [of 0 "j + 1"] by simp
  have d: "distinct ?out" and sub: "set ?out \<subseteq> {0..j}" and lv: "\<forall>i\<in>set ?out. live a i"
    and w: "window [] ?cs \<le> nat (j + 1)"
    using step.IH by simp_all
  have len: "length ?out \<le> nat (j + 1)"
    using outs_length_window [of "[]" ?cs] w by linarith
  have new: "j + 1 \<notin> set ?out" using sub by auto
  have "length (List.insert (j + 1) ?out) \<le> nat (j + 1 + 1)"
    using len new step.hyps by (simp add: List.insert_def)
  then show ?case
    using d sub lv w len new step.hyps
    by (auto simp: up post_rcv_outs post_rcv_window window_append)
qed

lemma post_outs:
  "outs out ((if handshake a then post_hs a r else []) @ post_rcv a r)
     = (if live a r then List.insert r out else out)"
proof -
  have qh: "\<forall>c\<in>set (if handshake a then post_hs a r else []). quiet c"
    using post_hs_quiet [of a r] by auto
  show ?thesis by (simp add: quiet_outs [OF qh] post_rcv_outs)
qed

lemma post_window:
  "window out ((if handshake a then post_hs a r else []) @ post_rcv a r)
     = (if live a r then length (List.insert r out) else length out)"
proof -
  have qh: "\<forall>c\<in>set (if handshake a then post_hs a r else []). quiet c"
    using post_hs_quiet [of a r] by auto
  show ?thesis
    by (simp add: window_append quiet_outs [OF qh] quiet_window [OF qh] post_rcv_window
        List.insert_def)
qed

lemma loop_inv_step:
  assumes inv: "loop_inv a s m h k st"
    and k: "0 \<le> k" and h: "1 \<le> h" and m: "1 \<le> m" and ms: "2 \<le> m \<or> s \<le> m"
  shows "loop_inv a s m h (k + 1) (swapm_iter a s h st k)"
proof -
  obtain rstep calls where st: "st = (rstep, calls)" by (cases st)
  let ?out = "outs [] calls"
  have r1: "rstep \<le> m + max 0 (k - h - 1)"
    and r2: "rstep < s \<longrightarrow> rstep = m + max 0 (k - h - 1)"
    and f: "fits (max 1 (k - h)) rstep ?out"
    and lv: "\<forall>i\<in>set ?out. live a i"
    and w: "window [] calls \<le> nat m"
    using inv by (simp_all add: loop_inv_def st)
  have len: "length ?out \<le> nat m"
    using outs_length_window [of "[]" calls] w by linarith
  let ?c1 = "calls @ send_data a k"
  have o1: "outs [] ?c1 = ?out"
    by (simp add: quiet_outs [OF send_data_quiet])
  have w1: "window [] ?c1 \<le> nat m"
    using w len by (simp add: window_append quiet_window [OF send_data_quiet])
  show ?thesis
  proof (cases "k > h")
    case False
    then have "max 1 (k + 1 - h) = max 1 (k - h)" "max 0 (k + 1 - h - 1) = max 0 (k - h - 1)"
      by simp_all
    with False r1 r2 f lv w1 o1 show ?thesis
      by (simp add: loop_inv_def swapm_iter_def st Let_def)
  next
    case True
    let ?wait = "if elt (rcvlths a) (elt (swapids a) (k - h)) > 0 then [MPI_Wait (Rcvid (k - h))] else []"
    let ?c2 = "?c1 @ ?wait"
    let ?out2 = "outs [] ?c2"
    have o2: "?out2 = (if live a (k - h) then removeAll (k - h) ?out else ?out)"
      using o1 by (simp add: live_def)
    have notin: "k - h \<notin> set ?out2"
      using o2 lv by auto
    have sub2: "set ?out2 \<subseteq> set ?out" and d2: "distinct ?out2"
      using o2 f by (auto simp: fits_def distinct_removeAll)
    have lv2: "\<forall>i\<in>set ?out2. live a i"
      using sub2 lv by auto
    have f2: "fits (k + 1 - h) rstep ?out2"
    proof -
      have "set ?out2 \<subseteq> insert 0 {k + 1 - h..<rstep}"
      proof
        fix i assume i: "i \<in> set ?out2"
        then have "i \<in> insert 0 {max 1 (k - h)..<rstep}" using sub2 f by (auto simp: fits_def)
        moreover have "i \<noteq> k - h" using i notin by auto
        ultimately show "i \<in> insert 0 {k + 1 - h..<rstep}" using True by auto
      qed
      with d2 show ?thesis by (simp add: fits_def)
    qed
    have len2: "length ?out2 \<le> length ?out"
      using o2 by simp
    have w2: "window [] ?c2 \<le> nat m"
    proof -
      have e: "window [] ?c2 = max (window [] ?c1) (window (outs [] ?c1) ?wait)"
        by (rule window_append)
      have "window ?out ?wait = length ?out" by (rule calm_window) simp
      then have "window (outs [] ?c1) ?wait = length ?out" by (simp only: o1)
      then show ?thesis using e w1 len by linarith
    qed
    show ?thesis
    proof (cases "rstep < s")
      case False
      have "swapm_iter a s h st k = (rstep, ?c2)"
        using True False by (simp add: swapm_iter_def st Let_def)
      moreover have "max 1 (k + 1 - h) = k + 1 - h" using True by simp
      moreover have "rstep \<le> m + max 0 (k + 1 - h - 1)" using r1 by linarith
      ultimately show ?thesis
        using False f2 lv2 w2 by (simp add: loop_inv_def)
    next
      case rs: True
      then have req: "rstep = m + (k - h - 1)" using r2 True by simp
      have m2: "2 \<le> m" using ms rs req True by linarith
      let ?post = "(if handshake a then post_hs a rstep else []) @ post_rcv a rstep"
      let ?c3 = "?c2 @ ?post"
      define out2 where "out2 = ?out2"
      define out3 where "out3 = (if live a rstep then List.insert rstep out2 else out2)"
      have o3: "outs [] ?c3 = out3"
        unfolding out3_def out2_def outs_simps(3) [of "[]" ?c2 ?post] by (rule post_outs)
      have f3: "fits (k + 1 - h) (rstep + 1) out3"
        using f2 req m2 by (auto simp: fits_def out3_def out2_def)
      have lv3: "\<forall>i\<in>set out3. live a i"
        using lv2 by (auto simp: out3_def out2_def)
      have len3: "length out3 \<le> nat m"
        using fits_length [OF f3] req m2 by simp
      have e3: "window [] ?c3 = max (window [] ?c2) (window ?out2 ?post)"
        by (rule window_append)
      have "window ?out2 ?post = (if live a rstep then length (List.insert rstep out2) else length out2)"
        unfolding out2_def by (rule post_window)
      also have "\<dots> = length out3" by (simp add: out3_def)
      finally have "window ?out2 ?post \<le> nat m"
        using len3 by simp
      then have w3: "window [] ?c3 \<le> nat m"
        using w2 e3 by linarith
      have "swapm_iter a s h st k = (rstep + 1, ?c3)"
        using True rs by (simp add: swapm_iter_def st Let_def)
      moreover have "max 1 (k + 1 - h) = k + 1 - h" "max 0 (k + 1 - h - 1) = k - h" using True by simp_all
      ultimately show ?thesis
        using f3 lv3 w3 req o3 by (simp only: loop_inv_def fst_conv snd_conv) simp
    qed
  qed
qed

lemma loop_inv_foldl:
  assumes "0 \<le> k" and "loop_inv a s m h 0 st"
    and h: "1 \<le> h" and m: "1 \<le> m" and ms: "2 \<le> m \<or> s \<le> m"
  shows "loop_inv a s m h k (foldl (swapm_iter a s h) st [0..k - 1])"
  using assms(1)
proof (induction k rule: int_ge_induct)
  case base
  show ?case using assms(2) by simp
next
  case (step k)
  have up: "[0..k] = [0..k - 1] @ [k]"
    using step.hyps upto_rec2 [of 0 k] by simp
  show ?case
    using loop_inv_step [OF step.IH step.hyps h m ms] by (simp add: up)
qed

lemma swapm_maxreq_facts:
  assumes "1 \<le> s" and "swapm_maxreq s r = (m, h)"
  shows "1 \<le> m \<and> 1 \<le> h \<and> (2 \<le> m \<or> s \<le> m)"
  using assms by (auto simp: swapm_maxreq_def split: if_splits)

lemma swapm_window:
  "window [] (snd (pio_swapm a))
     \<le> (if swapm_steps a = 0 then 1 else nat (fst (swapm_maxreq (swapm_steps a) (max_requests a))))"
proof (cases "swapm_steps a = 0")
  case True
  then show ?thesis using swapm_self_window [of a] by (simp add: pio_swapm_def Let_def)
next
  case False
  let ?s = "swapm_steps a"
  obtain m h where mh: "swapm_maxreq ?s (max_requests a) = (m, h)"
    by (cases "swapm_maxreq ?s (max_requests a)")
  have s1: "1 \<le> ?s" using False by (cases "swap_partners a") (simp_all add: swapm_steps_def)
  have m: "1 \<le> m" and h: "1 \<le> h" and ms: "2 \<le> m \<or> ?s \<le> m"
    using swapm_maxreq_facts [OF s1 mh] by simp_all
  let ?hs = "if handshake a then concat (map (post_hs a) [0..m - 1]) else []"
  let ?rcv = "concat (map (post_rcv a) [0..m - 1])"
  let ?init = "(m, swapm_self a @ ?hs @ ?rcv)"
  let ?st = "foldl (swapm_iter a ?s h) ?init [0..?s - 1]"
  let ?drain = "concat (map (swapm_drain a) [?s - h..?s - 1])"
  have qh: "\<forall>c\<in>set ?hs. quiet c"
    using post_hs_concat_quiet [of a "[0..m - 1]"] by auto
  have pre: "distinct (outs [] ?rcv)" "set (outs [] ?rcv) \<subseteq> {0..m - 1}"
    "\<forall>i\<in>set (outs [] ?rcv). live a i" "window [] ?rcv \<le> nat m"
    using preposted [of "m - 1" a] m by simp_all
  have o0: "outs [] (snd ?init) = outs [] ?rcv"
    by (simp add: swapm_self_outs quiet_outs [OF qh])
  have w0: "window [] (snd ?init) \<le> nat m"
    using swapm_self_window [of a] pre(4) m
    by (simp add: window_append swapm_self_outs quiet_outs [OF qh] quiet_window [OF qh])
  have f0: "fits 1 m (outs [] ?rcv)"
    using pre(1) pre(2) by (auto simp: fits_def)
  have inv0: "loop_inv a ?s m h 0 ?init"
    using h o0 w0 f0 pre(3) by (simp add: loop_inv_def)
  have "loop_inv a ?s m h ?s ?st"
    using loop_inv_foldl [OF _ inv0 h m ms, of ?s] s1 by simp
  then have wl: "window [] (snd ?st) \<le> nat m"
    by (simp add: loop_inv_def)
  have e: "window [] (snd ?st @ ?drain) = max (window [] (snd ?st)) (window (outs [] (snd ?st)) ?drain)"
    by (rule window_append)
  have "window (outs [] (snd ?st)) ?drain = length (outs [] (snd ?st))"
    by (rule calm_window) (rule swapm_drain_calm)
  then have "window [] (snd ?st @ ?drain) \<le> nat m"
    using e wl outs_length_window [of "[]" "snd ?st"] by linarith
  moreover have "snd (pio_swapm a) = snd ?st @ ?drain"
    using False by (simp add: pio_swapm_def Let_def mh split_beta)
  ultimately show ?thesis using False mh by simp
qed

lemma swapm_self_peer: "\<forall>c\<in>set (swapm_self a). peer_of c \<in> {None, Some (mytask a)}"
  by (auto simp: swapm_self_def Let_def)

subsection \<open>Claims about pio\_swapm and pair\<close>

text \<open>
  Claim C4, as amended. With \<^verbatim>\<open>steps\<close> the number of scheduled partners: when
  \<^verbatim>\<open>steps == 0\<close> the call returns \<^verbatim>\<open>PIO_NOERR\<close> after the send to self only, so no call
  addresses another rank; when \<^verbatim>\<open>steps == 1\<close> the bound \<^verbatim>\<open>maxreq\<close> is 1; when
  \<^verbatim>\<open>steps > 1\<close> the bound is \<^verbatim>\<open>max_requests\<close> if \<^verbatim>\<open>1 < max_requests < steps\<close>, 2 if
  \<^verbatim>\<open>max_requests\<close> is 1 or at least \<^verbatim>\<open>steps\<close>, and \<^verbatim>\<open>steps\<close> if \<^verbatim>\<open>max_requests <= 0\<close>.
  In every call the number of data receives outstanding at any moment is at most that
  bound (at most 1 when \<^verbatim>\<open>steps == 0\<close>).
\<close>

theorem swapm_request_bound:
  "(swapm_steps a = 0 \<longrightarrow>
      pio_swapm a = (PIO_NOERR, swapm_self a)
      \<and> (\<forall>c\<in>set (snd (pio_swapm a)). peer_of c = None \<or> peer_of c = Some (mytask a)))
   \<and> (swapm_steps a = 1 \<longrightarrow> fst (swapm_maxreq (swapm_steps a) (max_requests a)) = 1)
   \<and> (swapm_steps a > 1 \<longrightarrow>
        fst (swapm_maxreq (swapm_steps a) (max_requests a)) =
          (if 1 < max_requests a \<and> max_requests a < swapm_steps a then max_requests a
           else if 0 < max_requests a then 2 else swapm_steps a))
   \<and> window [] (snd (pio_swapm a))
        \<le> (if swapm_steps a = 0 then 1
            else nat (fst (swapm_maxreq (swapm_steps a) (max_requests a))))"
proof (intro conjI impI)
  assume z: "swapm_steps a = 0"
  then show p: "pio_swapm a = (PIO_NOERR, swapm_self a)"
    by (simp add: pio_swapm_def Let_def)
  show "\<forall>c\<in>set (snd (pio_swapm a)). peer_of c = None \<or> peer_of c = Some (mytask a)"
    using swapm_self_peer [of a] by (simp add: p)
next
  assume "swapm_steps a = 1"
  then show "fst (swapm_maxreq (swapm_steps a) (max_requests a)) = 1"
    by (simp add: swapm_maxreq_def)
next
  assume "swapm_steps a > 1"
  then show "fst (swapm_maxreq (swapm_steps a) (max_requests a)) =
          (if 1 < max_requests a \<and> max_requests a < swapm_steps a then max_requests a
           else if 0 < max_requests a then 2 else swapm_steps a)"
    by (simp add: swapm_maxreq_def)
next
  show "window [] (snd (pio_swapm a))
        \<le> (if swapm_steps a = 0 then 1
            else nat (fst (swapm_maxreq (swapm_steps a) (max_requests a))))"
    by (rule swapm_window)
qed

lemma swapm_example_steps:
  "swapm_steps swapm_single_example = 0" "swapm_steps swapm_pair_example = 1"
  "swapm_steps swapm_example = 3"
  by code_simp+

theorem swapm_request_bound_witness:
  "swapm_steps swapm_single_example = 0
   \<and> pio_swapm swapm_single_example = (PIO_NOERR, swapm_self swapm_single_example)
   \<and> swapm_steps swapm_pair_example = 1
   \<and> fst (swapm_maxreq (swapm_steps swapm_pair_example) (max_requests swapm_pair_example)) = 1
   \<and> swapm_steps swapm_example > 1
   \<and> fst (swapm_maxreq (swapm_steps swapm_example) (max_requests swapm_example)) = 2
   \<and> window [] (snd (pio_swapm swapm_example)) \<le> 2"
proof -
  have r1: "max_requests swapm_pair_example = 4" by (simp add: swapm_pair_example_def)
  have r3: "max_requests swapm_example = 1" by (simp add: swapm_example_def)
  have m1: "fst (swapm_maxreq 1 4) = 1" and m3: "fst (swapm_maxreq 3 1) = 2"
    by (simp_all add: swapm_maxreq_def)
  have "pio_swapm swapm_single_example = (PIO_NOERR, swapm_self swapm_single_example)"
    using swapm_request_bound [of swapm_single_example] by (simp add: swapm_example_steps)
  moreover have "window [] (snd (pio_swapm swapm_example)) \<le> 2"
    using swapm_request_bound [of swapm_example] by (simp add: swapm_example_steps r3 m3)
  moreover have "fst (swapm_maxreq (swapm_steps swapm_pair_example) (max_requests swapm_pair_example)) = 1"
    using swapm_request_bound [of swapm_pair_example] by (simp add: swapm_example_steps)
  ultimately show ?thesis
    by (simp add: swapm_example_steps r3 m3)
qed

text \<open>
  Claim C4 as stated fails: with three scheduled partners and \<^verbatim>\<open>max_requests = 1\<close> two
  data receives are outstanding at once, and with \<^verbatim>\<open>max_requests = 5 > steps\<close> the bound is
  2, not \<^verbatim>\<open>steps = 3\<close>.
\<close>

theorem swapm_serialized_counterexample:
  "swapm_steps swapm_example = 3 \<and> max_requests swapm_example = 1
   \<and> window [] (snd (pio_swapm swapm_example)) = 2
   \<and> swapm_steps (swapm_example\<lparr>max_requests := 5\<rparr>) = 3
   \<and> fst (swapm_maxreq (swapm_steps (swapm_example\<lparr>max_requests := 5\<rparr>)) 5) = 2"
  by code_simp

text \<open>
  Claim C5, as amended. \<^verbatim>\<open>pair(np, istep, me)\<close> is \<^verbatim>\<open>(istep + 1) XOR me\<close> when that is at
  most \<^verbatim>\<open>np - 1\<close>, and -1 (no exchange) otherwise; for non-negative \<^verbatim>\<open>istep\<close> and \<^verbatim>\<open>me\<close>
  a partner other than -1 lies in \<open>[0, np - 1]\<close> and differs from \<^verbatim>\<open>me\<close>; and the
  schedule keeps, in step order, the partners \<open>p \<ge> 0\<close> with \<^verbatim>\<open>sndlths[p] > 0\<close> or
  \<^verbatim>\<open>rcvlths[p] > 0\<close>.
\<close>

theorem pair_partner:
  "pair np istep me = (if (istep + 1) XOR me \<le> np - 1 then (istep + 1) XOR me else - 1)
   \<and> (0 \<le> istep \<and> 0 \<le> me \<and> pair np istep me \<noteq> - 1 \<longrightarrow>
        0 \<le> pair np istep me \<and> pair np istep me \<le> np - 1 \<and> pair np istep me \<noteq> me)
   \<and> swap_partners a =
       filter (\<lambda>p. p \<ge> 0 \<and> (elt (sndlths a) p > 0 \<or> elt (rcvlths a) p > 0))
         (map (\<lambda>i. pair (nprocs a) i (mytask a)) [0..ceil2 (nprocs a) - 2])"
proof (intro conjI impI)
  show "pair np istep me = (if (istep + 1) XOR me \<le> np - 1 then (istep + 1) XOR me else - 1)"
    by (simp add: pair_def Let_def)
next
  assume h: "0 \<le> istep \<and> 0 \<le> me \<and> pair np istep me \<noteq> - 1"
  then have nn: "0 \<le> (istep + 1) XOR me" by simp
  from h have "pair np istep me = (istep + 1) XOR me" "(istep + 1) XOR me \<le> np - 1"
    by (auto simp: pair_def Let_def split: if_splits)
  moreover have "(istep + 1) XOR me \<noteq> me"
  proof
    assume "(istep + 1) XOR me = me"
    then have "((istep + 1) XOR me) XOR me = me XOR me" by simp
    then have "istep + 1 = 0" by (simp add: xor.assoc)
    with h show False by simp
  qed
  ultimately show "0 \<le> pair np istep me" "pair np istep me \<le> np - 1" "pair np istep me \<noteq> me"
    using nn by simp_all
next
  show "swap_partners a =
       filter (\<lambda>p. p \<ge> 0 \<and> (elt (sndlths a) p > 0 \<or> elt (rcvlths a) p > 0))
         (map (\<lambda>i. pair (nprocs a) i (mytask a)) [0..ceil2 (nprocs a) - 2])"
    unfolding swap_partners_def scheduled_def by (rule refl)
qed

lemma swapm_example_partners: "swap_partners swapm_example = [1, 2, 3]"
  by code_simp

theorem pair_partner_witness:
  "(0::int) \<le> 1 \<and> pair 4 1 1 \<noteq> - 1 \<and> pair 4 1 1 = 3 \<and> pair 4 1 1 \<le> 4 - 1 \<and> pair 4 1 1 \<noteq> 1
   \<and> swap_partners swapm_example = [1, 2, 3]"
  using pair_partner [of 4 1 1 swapm_example]
  by (simp add: swapm_example_partners pair_def)

text \<open>
  Claim C5 as stated fails: for two ranks, step 0 and rank 0 the partner is 1, while
  \<open>((me + 1) XOR (istep + 1)) - 1\<close> is -1.
\<close>

theorem pair_formula_counterexample:
  "pair 2 0 0 = 1 \<and> (((0::int) + 1) XOR (0 + 1)) - 1 = - 1"
  by (simp add: pair_def)

subsection \<open>Claims about pio\_fc\_gather\<close>

lemma gather_iter_posts:
  assumes "\<forall>c\<in>set (snd (snd st)). \<forall>b n t p tag r. c = MPI_Irecv b n t p tag r \<longrightarrow> b = Rcvbuf p"
  shows "\<forall>c\<in>set (snd (snd (gather_iter g pre mtag st q))).
           \<forall>b n t p tag r. c = MPI_Irecv b n t p tag r \<longrightarrow> b = Rcvbuf p"
  using assms by (auto simp: gather_iter_def Let_def)

lemma gather_foldl_posts:
  assumes "\<forall>c\<in>set (snd (snd st)). \<forall>b n t p tag r. c = MPI_Irecv b n t p tag r \<longrightarrow> b = Rcvbuf p"
  shows "\<forall>c\<in>set (snd (snd (foldl (gather_iter g pre mtag) st ps))).
           \<forall>b n t p tag r. c = MPI_Irecv b n t p tag r \<longrightarrow> b = Rcvbuf p"
  using assms
proof (induction ps arbitrary: st)
  case Nil
  then show ?case by simp
next
  case (Cons q ps)
  show ?case
    using Cons.IH [OF gather_iter_posts [OF Cons.prems]] by simp
qed

text \<open>
  Every receive the flow-controlled root posts for a rank \<open>p\<close> is posted at byte
  displacement \<open>p\<close> of \<^verbatim>\<open>recvbuf\<close>, whatever \<^verbatim>\<open>recvcnt\<close> and the element size are.
\<close>

lemma fc_gather_posts_at_rank:
  assumes "MPI_Irecv b n t p tag r \<in> set (snd (pio_fc_gather g))"
  shows "b = Rcvbuf p"
proof -
  have base: "\<forall>c\<in>set (snd (snd (0::int, 0::int, []::mpi_call list))).
                \<forall>b n t p tag r. c = MPI_Irecv b n t p tag r \<longrightarrow> b = Rcvbuf p"
    by simp
  note fold = gather_foldl_posts [OF base]
  show ?thesis
    using assms fold
    by (auto simp: pio_fc_gather_def Let_def split_beta split: if_splits)
qed

text \<open>
  Claim C10 at a concrete gather of two ranks, root 0, two one-byte elements per rank.
  The flow-controlled path leaves the message of rank 1 at bytes 1 and 2 and never stores
  the root's own message; \<^verbatim>\<open>MPI_Gather\<close> (\<^verbatim>\<open>flow_cntl == 0\<close>) fills the buffer with both
  messages in rank order.
\<close>

theorem fc_gather_differs_from_gather:
  "root_recvbuf gather_example [[10, 11], [20, 21]] 1 [0, 0, 0, 0] = Some [0, 20, 21, 0]
   \<and> root_recvbuf (gather_example\<lparr>flow_cntl := 0\<rparr>) [[10, 11], [20, 21]] 1 [0, 0, 0, 0]
       = Some [10, 11, 20, 21]
   \<and> snd (pio_fc_gather gather_example)
       = [MPI_Irecv (Rcvbuf 1) 2 MPI_CHAR 1 4 (Rcvid 1), MPI_Send Hs 1 MPI_CHAR 1 4,
          MPI_Waitall 1]"
  by code_simp

section \<open>Properties of the write path\<close>

subsection \<open>Steps of PIOc\_write\_darray\<close>

lemma andthen_simps [simp]:
  "andthen (Some oc, s) f = (Some oc, s)" "andthen (None, s) f = f s"
  by (simp_all add: andthen_def)

lemma andthen_Some:
  "andthen r f = (Some oc, s) \<longleftrightarrow> r = (Some oc, s) \<or> (\<exists>s1. r = (None, s1) \<and> f s1 = (Some oc, s))"
  by (cases r) (auto simp: andthen_def split: option.splits)

lemma andthen_None:
  "andthen r f = (None, s) \<longleftrightarrow> (\<exists>s1. r = (None, s1) \<and> f s1 = (None, s))"
  by (cases r) (auto simp: andthen_def split: option.splits)

lemma wmb_search_le: "wmb_search w ws i r \<le> length ws"
  by (induction w ws i r rule: wmb_search.induct) auto

lemma wmb_search_match:
  "wmb_search w ws i r < length ws \<Longrightarrow>
     ioid ((w # ws) ! wmb_search w ws i r) = i \<and> recordvar ((w # ws) ! wmb_search w ws i r) = r"
  by (induction w ws i r rule: wmb_search.induct) auto

lemma chain_length [simp]: "length (chain f) = Suc (length (buffer_next f))"
  by (simp add: chain_def)

lemma chain_wmb_update:
  "n < length (chain f) \<Longrightarrow> chain (wmb_update f n w) = (chain f)[n := w]"
  by (cases n) (simp_all add: chain_def wmb_update_def)

lemma wmb_at_update [simp]:
  "n < length (chain f) \<Longrightarrow> wmb_at (wmb_update f n w) n = w"
  by (simp add: wmb_at_def chain_wmb_update)

lemma wmb_update_fields [simp]:
  "varlist (wmb_update f n w) = varlist f" "iosystem (wmb_update f n w) = iosystem f"
  "iotype (wmb_update f n w) = iotype f" "mode (wmb_update f n w) = mode f"
  "iobuf (wmb_update f n w) = iobuf f" "wb_pend (wmb_update f n w) = wb_pend f"
  by (cases n; simp add: wmb_update_def)+

lemma set_var_fields [simp]:
  "buffer (set_var f v d) = buffer f" "buffer_next (set_var f v d) = buffer_next f"
  "chain (set_var f v d) = chain f" "iosystem (set_var f v d) = iosystem f"
  "iotype (set_var f v d) = iotype f" "mode (set_var f v d) = mode f"
  "iobuf (set_var f v d) = iobuf f" "wb_pend (set_var f v d) = wb_pend f"
  "wmb_at (set_var f v d) n = wmb_at f n"
  "varlist (set_var f v d) = (varlist f)(v := d)"
  by (simp_all add: set_var_def chain_def wmb_at_def)

lemma find_var_fillvalue_vrecord:
  "vrecord (snd (find_var_fillvalue ext varid vdesc)) = vrecord vdesc"
  by (simp add: find_var_fillvalue_def Let_def split_beta)

lemma wd_fillvalue_effect:
  assumes "wd_fillvalue ext varid w = (r, w')"
  shows "w_trace w' = w_trace w \<and> chain (w_file w') = chain (w_file w)
         \<and> w_alen w' = w_alen w \<and> recordvar_of (w_file w') varid = recordvar_of (w_file w) varid
         \<and> cached_arrays (w_file w') i rv = cached_arrays (w_file w) i rv"
  using assms
  by (auto simp: wd_fillvalue_def Let_def split_beta recordvar_of_def cached_arrays_def
      find_var_fillvalue_vrecord split: if_splits)

lemma wmb_locate_effect:
  assumes "wmb_locate ext f i r al = Some (f', n)"
  shows "n < length (chain f') \<and> take (length (chain f)) (chain f') = chain f
         \<and> varlist f' = varlist f \<and> iosystem f' = iosystem f
         \<and> num_arrays (wmb_at f' n) = cached_arrays f i r
         \<and> (length (chain f') = length (chain f) \<or> chain f' = chain f @ [wmb_at f' n])"
proof -
  let ?k = "wmb_search (buffer f) (buffer_next f) i r"
  have le: "?k \<le> length (buffer_next f)" by (rule wmb_search_le)
  show ?thesis
  proof (cases "ioid (wmb_at f ?k) \<noteq> i \<or> recordvar (wmb_at f ?k) \<noteq> r")
    case True
    then have "\<not> ?k < length (buffer_next f)"
      using wmb_search_match [of "buffer f" "buffer_next f" i r]
      by (auto simp: wmb_at_def chain_def)
    then have k: "?k = length (buffer_next f)" using le by simp
    from True assms have f': "f' = f\<lparr>buffer_next := buffer_next f @
                      [\<lparr>ioid = i, recordvar = r, num_arrays = 0, arraylen = al, vid = None,
                        frame = None, fillvalue = None, data = None\<rparr>]\<rparr>" and n: "n = Suc ?k"
      by (auto simp: wmb_locate_def Let_def split: if_splits)
    show ?thesis
      using True by (auto simp: f' n k chain_def wmb_at_def cached_arrays_def Let_def nth_append)
  next
    case False
    with assms have "f' = f" "n = ?k"
      by (auto simp: wmb_locate_def Let_def split: if_splits)
    then show ?thesis using False le by (simp add: cached_arrays_def Let_def)
  qed
qed

lemma wd_locate_effect:
  assumes "wd_locate ext varid i w = (r, w')"
  shows "w_trace w' = w_trace w \<and> w_alen w' = w_alen w
         \<and> take (length (chain (w_file w))) (chain (w_file w')) = chain (w_file w)
         \<and> (r = None \<longrightarrow>
               w_n w' < length (chain (w_file w'))
               \<and> num_arrays (wmb_at (w_file w') (w_n w'))
                   = cached_arrays (w_file w) i (recordvar_of (w_file w) varid))"
proof (cases "wmb_locate ext (w_file w) i (recordvar_of (w_file w) varid) (w_alen w)")
  case None
  with assms show ?thesis by (auto simp: wd_locate_def Let_def recordvar_of_def)
next
  case (Some p)
  obtain f' n where p: "p = (f', n)" by (cases p)
  from assms Some p have "r = None" "w' = w\<lparr>w_file := f', w_n := n\<rparr>"
    by (auto simp: wd_locate_def Let_def recordvar_of_def)
  then show ?thesis using wmb_locate_effect [OF Some [unfolded p]] by simp
qed

lemma wd_prepare_effect:
  assumes "wd_prepare ext varid i w = (r, w')"
  shows "w_trace w' = w_trace w \<and> w_alen w' = w_alen w
         \<and> take (length (chain (w_file w))) (chain (w_file w')) = chain (w_file w)
         \<and> (r = None \<longrightarrow>
               w_n w' < length (chain (w_file w'))
               \<and> num_arrays (wmb_at (w_file w') (w_n w'))
                   = cached_arrays (w_file w) i (recordvar_of (w_file w) varid))"
proof -
  obtain r1 w1 where s1: "wd_fillvalue ext varid w = (r1, w1)" by (cases "wd_fillvalue ext varid w")
  note e1 = wd_fillvalue_effect [OF s1]
  show ?thesis
  proof (cases r1)
    case (Some oc)
    with assms s1 have "w' = w1" "r = Some oc" by (simp_all add: wd_prepare_def)
    then show ?thesis using e1 [of i 0] by simp
  next
    case None
    with assms s1 have "wd_locate ext varid i w1 = (r, w')" by (simp add: wd_prepare_def)
    from wd_locate_effect [OF this] e1 [of i "recordvar_of (w_file w) varid"]
    show ?thesis by simp
  qed
qed

lemma extends_tail_refl [simp]: "extends_tail w w"
  by (simp add: extends_tail_def)

lemma extends_tail_trans:
  "extends_tail w w1 \<Longrightarrow> extends_tail w1 w2 \<Longrightarrow> extends_tail w w2"
  by (auto simp: extends_tail_def)

lemma extends_tail_andthen:
  assumes "extends_tail w (snd r)" and "\<And>s. extends_tail s (snd (f s))"
  shows "extends_tail w (snd (andthen r f))"
proof (cases r)
  case (Pair x w1)
  show ?thesis
  proof (cases x)
    case None
    with Pair assms(1) assms(2) [of w1] show ?thesis
      by (auto intro: extends_tail_trans)
  next
    case (Some oc)
    with Pair assms(1) show ?thesis by simp
  qed
qed

lemma on_wmb_tail:
  assumes "\<And>wmb. \<forall>e\<in>set (snd (snd (step wmb))). tail_ev e"
  shows "extends_tail w (snd (on_wmb step w))"
  using assms [of "wmb_at (w_file w) (w_n w)"]
  by (auto simp: on_wmb_def extends_tail_def emit_def split_beta Let_def)

lemma wd_data_tail: "\<forall>e\<in>set (snd (snd (wd_data ext iodesc al wmb))). tail_ev e"
  by (simp add: wd_data_def Let_def)

lemma wd_vid_tail: "\<forall>e\<in>set (snd (snd (wd_vid ext wmb))). tail_ev e"
  by (simp add: wd_vid_def Let_def)

lemma wd_frame_tail: "\<forall>e\<in>set (snd (snd (wd_frame ext vdesc wmb))). tail_ev e"
  by (simp add: wd_frame_def Let_def)

lemma wd_fill_tail: "\<forall>e\<in>set (snd (snd (wd_fill ext iodesc fillv wmb))). tail_ev e"
  by (simp add: wd_fill_def Let_def split: option.splits)


lemma wd_pend_tail: "extends_tail w (snd (wd_pend varid w))"
  by (simp add: wd_pend_def Let_def extends_tail_def)

lemma wd_reserve_tail: "extends_tail w (snd (wd_reserve ext iodesc varid fillv w))"
  unfolding wd_reserve_def
  by (intro extends_tail_andthen wd_pend_tail on_wmb_tail wd_data_tail wd_vid_tail
      wd_frame_tail wd_fill_tail)


lemma wd_sync_effect:
  assumes "wd_sync ext st iodesc varid w = (r, w')"
  defines "l \<equiv> local_needsflush ext st iodesc (wmb_at (w_file w) (w_n w)) (w_alen w)"
  defines "a \<equiv> allreduce_max l (comp_comm_needsflush ext)"
  shows "w_trace w' = w_trace w @ Ev_allreduce l a
            # (if MPI_Allreduce_rc ext = 0 \<and> a > 0 then [Ev_flush_buffer (w_n w) (a = 2)] else [])
         \<and> w_n w' = w_n w \<and> w_alen w' = w_alen w
         \<and> (MPI_Allreduce_rc ext \<noteq> 0 \<longrightarrow>
               r = Some (Return (Mpi (MPI_Allreduce_rc ext))) \<and> w_file w' = w_file w)
         \<and> (r = None \<and> w_n w < length (chain (w_file w)) \<longrightarrow> w_n w' < length (chain (w_file w')))"
proof (cases "MPI_Allreduce_rc ext = 0")
  case False
  with assms(1) show ?thesis
    by (auto simp: wd_sync_def wd_decide_def Let_def emit_def l_def a_def)
next
  case True
  let ?w1 = "(emit w [Ev_allreduce l a])\<lparr>w_needsflush := a\<rparr>"
  have d: "wd_decide ext st iodesc w = (None, ?w1)"
    using True by (simp add: wd_decide_def Let_def l_def a_def)
  obtain w2 where r2: "wd_recsz ext varid ?w1 = (None, w2)"
    and w2: "w_trace w2 = w_trace ?w1" "w_n w2 = w_n w" "w_alen w2 = w_alen w"
      "w_needsflush w2 = a" "chain (w_file w2) = chain (w_file w)"
    by (cases "wd_recsz ext varid ?w1")
      (auto simp: wd_recsz_def Let_def emit_def split: if_splits)
  have fl: "wd_flush ext w2 = (r, w')"
    using assms(1) d r2 by (simp add: wd_sync_def)
  show ?thesis
  proof (cases "a > 0")
    case False
    with fl w2 True show ?thesis by (auto simp: wd_flush_def emit_def)
  next
    case pos: True
    with fl w2 True show ?thesis
      by (auto simp: wd_flush_def emit_def Let_def split_beta split: if_splits)
  qed
qed






lemma fails_andthen:
  assumes "fails (fst r)" and "\<And>s. fails (fst (f s))"
  shows "fails (fst (andthen r f))"
proof (cases r)
  case (Pair x s)
  then show ?thesis using assms by (cases x) auto
qed

lemma on_wmb_fails:
  assumes "\<And>wmb. fails (fst (step wmb))"
  shows "fails (fst (on_wmb step w))"
  using assms [of "wmb_at (w_file w) (w_n w)"] by (simp add: on_wmb_def split_beta)

lemma wd_steps_fail:
  "fails (fst (wd_fillvalue ext varid w))" "fails (fst (wd_locate ext varid i w))"
  "fails (fst (wd_decide ext st iodesc w))" "fails (fst (wd_recsz ext varid w))"
  "fails (fst (wd_flush ext w))" "fails (fst (wd_pend varid w))"
  "fails (fst (wd_data ext iodesc al wmb))" "fails (fst (wd_vid ext wmb))"
  "fails (fst (wd_frame ext vdesc wmb))" "fails (fst (wd_fill ext iodesc fillv wmb))"
  "fails (fst (wd_copy iodesc vdesc n varid al array wmb))"
  by (auto simp: fails_def wd_fillvalue_def wd_locate_def wd_decide_def wd_recsz_def wd_flush_def
      wd_pend_def wd_data_def wd_vid_def wd_frame_def wd_fill_def wd_copy_def Let_def split_beta
      split: option.splits if_splits)

lemma wd_run_fails: "fails (fst (wd_run ext st iodesc varid i array fillv w))"
  unfolding wd_run_def wd_prepare_def wd_sync_def wd_append_def wd_reserve_def
  by (intro fails_andthen on_wmb_fails wd_steps_fail)


lemma slice_slice: "bytes_at (bytes_at b 0 n) 0 n = bytes_at b 0 n"
  by (simp add: bytes_at_def)

lemma memcpy_slice_src: "memcpy d off (bytes_at src 0 n) 0 n = memcpy d off src 0 n"
  by (auto simp: memcpy_def bytes_at_def)

lemma memcpy_Some:
  assumes "memcpy d off src soff n = Some d'"
  shows "length d' = length d \<and> bytes_at d' off n = bytes_at src soff n
         \<and> int (length (bytes_at src soff n)) = n"
  using assms by (auto simp: memcpy_def bytes_at_def split: if_splits)

lemma wd_copy_slice:
  "wd_copy iodesc vdesc n varid al (bytes_at array 0 (al * mpitype_size iodesc))
     = wd_copy iodesc vdesc n varid al array"
  by (rule ext) (simp add: wd_copy_def Let_def memcpy_slice_src slice_slice
      cong: option.case_cong if_cong)

lemma andthen_cong_state:
  assumes "\<And>s. fst r = None \<Longrightarrow> snd r = s \<Longrightarrow> f s = g s"
  shows "andthen r f = andthen r g"
  using assms by (cases r) (auto simp: andthen_def split: option.splits)

lemma wd_append_slice:
  "wd_append ext iodesc varid (bytes_at array 0 (w_alen w * mpitype_size iodesc)) fillv w
     = wd_append ext iodesc varid array fillv w"
  unfolding wd_append_def
proof (rule andthen_cong_state)
  fix s assume "snd (wd_reserve ext iodesc varid fillv w) = s"
  then have "extends_tail w s" using wd_reserve_tail [of w ext iodesc varid fillv] by simp
  then have "w_alen s = w_alen w" by (auto simp: extends_tail_def)
  then show "on_wmb (wd_copy iodesc (varlist (w_file s) varid) (w_n s) varid (w_alen s)
                 (bytes_at array 0 (w_alen w * mpitype_size iodesc))) s
           = on_wmb (wd_copy iodesc (varlist (w_file s) varid) (w_n s) varid (w_alen s) array) s"
    by (simp add: wd_copy_slice)
qed

lemma wd_run_slice:
  "wd_run ext st iodesc varid i (bytes_at array 0 (w_alen w * mpitype_size iodesc)) fillv w
     = wd_run ext st iodesc varid i array fillv w"
  unfolding wd_run_def
proof (rule andthen_cong_state)
  fix s
  assume n: "fst (andthen (wd_prepare ext varid i w) (wd_sync ext st iodesc varid)) = None"
    and s: "snd (andthen (wd_prepare ext varid i w) (wd_sync ext st iodesc varid)) = s"
  obtain r1 w1 where p: "wd_prepare ext varid i w = (r1, w1)" by (cases "wd_prepare ext varid i w")
  with n have r1: "r1 = None" by (cases r1) auto
  from p r1 n s have sy: "wd_sync ext st iodesc varid w1 = (None, s)"
    by (cases "wd_sync ext st iodesc varid w1") auto
  have "w_alen s = w_alen w"
    using wd_prepare_effect [OF p] wd_sync_effect [OF sy] by simp
  then show "wd_append ext iodesc varid (bytes_at array 0 (w_alen w * mpitype_size iodesc)) fillv s
      = wd_append ext iodesc varid array fillv s"
    using wd_append_slice [of ext iodesc varid array s fillv] by simp
qed

lemma write_darray_ignores_excess:
  assumes "iodescs st i = Some iodesc" and "al > ndof iodesc"
  shows "PIOc_write_darray ext st ncid varid i al array fillv
       = PIOc_write_darray ext st ncid varid i (ndof iodesc)
           (bytes_at array 0 (ndof iodesc * mpitype_size iodesc)) fillv"
proof (cases "files st ncid")
  case None
  then show ?thesis by (simp add: PIOc_write_darray_def)
next
  case (Some f)
  let ?w = "\<lparr>w_file = f, w_n = 0, w_alen = ndof iodesc, w_needsflush = 0, w_trace = []\<rparr>"
  have "wd_run ext st iodesc varid i (bytes_at array 0 (w_alen ?w * mpitype_size iodesc)) fillv ?w
     = wd_run ext st iodesc varid i array fillv ?w"
    by (rule wd_run_slice)
  then show ?thesis
    using Some assms by (simp add: PIOc_write_darray_def)
qed

lemma on_wmb_effect:
  assumes "on_wmb step w = (r, w')" and "w_n w < length (chain (w_file w))"
  shows "\<exists>wmb' evs. step (wmb_at (w_file w) (w_n w)) = (r, wmb', evs)
           \<and> wmb_at (w_file w') (w_n w) = wmb' \<and> w_n w' = w_n w \<and> w_alen w' = w_alen w
           \<and> length (chain (w_file w')) = length (chain (w_file w))
           \<and> varlist (w_file w') = varlist (w_file w) \<and> w_trace w' = w_trace w @ evs"
proof -
  obtain r0 wmb' evs where st: "step (wmb_at (w_file w) (w_n w)) = (r0, wmb', evs)"
    by (cases "step (wmb_at (w_file w) (w_n w))")
  with assms(1) have "r = r0" "w' = emit (w\<lparr>w_file := wmb_update (w_file w) (w_n w) wmb'\<rparr>) evs"
    by (simp_all add: on_wmb_def)
  then show ?thesis
    using st assms(2) by (simp add: emit_def chain_wmb_update del: chain_length)
qed

lemma wd_pend_effect:
  "wd_pend varid w = (r, w') \<Longrightarrow>
     r = None \<and> chain (w_file w') = chain (w_file w) \<and> w_n w' = w_n w \<and> w_alen w' = w_alen w
     \<and> w_trace w' = w_trace w"
  by (auto simp: wd_pend_def Let_def chain_def)

lemma bgetr_length: "bgetr ext site old n = Some d \<Longrightarrow> int (length d) = n"
  by (auto simp: bgetr_def Let_def split: if_splits)

lemma wd_data_effect:
  assumes "wd_data ext iodesc al wmb = (None, wmb', evs)"
  shows "num_arrays wmb' = num_arrays wmb
         \<and> (al > 0 \<longrightarrow> (\<exists>d. data wmb' = Some d
                \<and> int (length d) = (1 + num_arrays wmb) * al * mpitype_size iodesc))"
  using assms
  by (auto simp: wd_data_def Let_def bgetr_length split: if_splits)

lemma wd_vid_effect:
  "wd_vid ext wmb = (None, wmb', evs) \<Longrightarrow> num_arrays wmb' = num_arrays wmb \<and> data wmb' = data wmb"
  by (auto simp: wd_vid_def Let_def split: if_splits)

lemma wd_frame_effect:
  "wd_frame ext vdesc wmb = (None, wmb', evs) \<Longrightarrow>
     num_arrays wmb' = num_arrays wmb \<and> data wmb' = data wmb"
  by (auto simp: wd_frame_def Let_def split: if_splits)

lemma wd_fill_effect:
  "wd_fill ext iodesc fillv wmb = (None, wmb', evs) \<Longrightarrow>
     num_arrays wmb' = num_arrays wmb \<and> data wmb' = data wmb"
  by (auto simp: wd_fill_def Let_def split: if_splits option.splits)

lemma wd_copy_effect:
  assumes "wd_copy iodesc vdesc n varid al array wmb = (None, wmb', evs)"
  shows "num_arrays wmb' = num_arrays wmb + 1 \<and> arraylen wmb' = al
         \<and> evs = [Ev_append n varid (bytes_at array 0 (al * mpitype_size iodesc))]
         \<and> (al > 0 \<longrightarrow> (\<exists>d d'. data wmb = Some d \<and> data wmb' = Some d'
                \<and> length d' = length d
                \<and> bytes_at d' (al * mpitype_size iodesc * num_arrays wmb) (al * mpitype_size iodesc)
                    = bytes_at array 0 (al * mpitype_size iodesc)
                \<and> int (length (bytes_at array 0 (al * mpitype_size iodesc)))
                    = al * mpitype_size iodesc))"
  using assms
  by (auto simp: wd_copy_def Let_def dest: memcpy_Some split: if_splits option.splits)

lemma wd_append_effect:
  assumes run: "wd_append ext iodesc varid array fillv w = (None, w')"
    and n: "w_n w < length (chain (w_file w))"
  defines "ms \<equiv> mpitype_size iodesc"
  defines "na \<equiv> num_arrays (wmb_at (w_file w) (w_n w))"
  defines "new \<equiv> wmb_at (w_file w') (w_n w)"
  shows "num_arrays new = na + 1 \<and> arraylen new = w_alen w
         \<and> (\<exists>pre. w_trace w' = w_trace w @ pre @ [Ev_append (w_n w) varid (bytes_at array 0 (w_alen w * ms))])
         \<and> (w_alen w > 0 \<longrightarrow>
               (\<exists>d. data new = Some d \<and> int (length d) = (na + 1) * w_alen w * ms
                  \<and> bytes_at d (w_alen w * ms * na) (w_alen w * ms) = bytes_at array 0 (w_alen w * ms)
                  \<and> int (length (bytes_at array 0 (w_alen w * ms))) = w_alen w * ms))"
proof -
  from run obtain w5 where res: "wd_reserve ext iodesc varid fillv w = (None, w5)"
    and cp: "on_wmb (wd_copy iodesc (varlist (w_file w5) varid) (w_n w5) varid (w_alen w5) array) w5
              = (None, w')"
    by (auto simp: wd_append_def andthen_None)
  from res obtain w1 w2 w3 w4 where
    s1: "wd_pend varid w = (None, w1)"
    and s2: "on_wmb (wd_data ext iodesc (w_alen w1)) w1 = (None, w2)"
    and s3: "on_wmb (wd_vid ext) w2 = (None, w3)"
    and s4: "on_wmb (wd_frame ext (varlist (w_file w3) varid)) w3 = (None, w4)"
    and s5: "on_wmb (wd_fill ext iodesc fillv) w4 = (None, w5)"
    by (auto simp: wd_reserve_def andthen_None)
  note e1 = wd_pend_effect [OF s1]
  have n1: "w_n w1 < length (chain (w_file w1))" using e1 n by simp
  from on_wmb_effect [OF s2 n1] obtain b2 v2 where
    d2: "wd_data ext iodesc (w_alen w1) (wmb_at (w_file w1) (w_n w1)) = (None, b2, v2)"
    and a2: "wmb_at (w_file w2) (w_n w1) = b2" "w_n w2 = w_n w1" "w_alen w2 = w_alen w1"
      "length (chain (w_file w2)) = length (chain (w_file w1))" "w_trace w2 = w_trace w1 @ v2"
    by blast
  have n2: "w_n w2 < length (chain (w_file w2))" using a2 n1 by simp
  from on_wmb_effect [OF s3 n2] obtain b3 v3 where
    d3: "wd_vid ext (wmb_at (w_file w2) (w_n w2)) = (None, b3, v3)"
    and a3: "wmb_at (w_file w3) (w_n w2) = b3" "w_n w3 = w_n w2" "w_alen w3 = w_alen w2"
      "length (chain (w_file w3)) = length (chain (w_file w2))" "w_trace w3 = w_trace w2 @ v3"
    by blast
  have n3: "w_n w3 < length (chain (w_file w3))" using a3 n2 by simp
  from on_wmb_effect [OF s4 n3] obtain b4 v4 where
    d4: "wd_frame ext (varlist (w_file w3) varid) (wmb_at (w_file w3) (w_n w3)) = (None, b4, v4)"
    and a4: "wmb_at (w_file w4) (w_n w3) = b4" "w_n w4 = w_n w3" "w_alen w4 = w_alen w3"
      "length (chain (w_file w4)) = length (chain (w_file w3))" "w_trace w4 = w_trace w3 @ v4"
    by blast
  have n4: "w_n w4 < length (chain (w_file w4))" using a4 n3 by simp
  from on_wmb_effect [OF s5 n4] obtain b5 v5 where
    d5: "wd_fill ext iodesc fillv (wmb_at (w_file w4) (w_n w4)) = (None, b5, v5)"
    and a5: "wmb_at (w_file w5) (w_n w4) = b5" "w_n w5 = w_n w4" "w_alen w5 = w_alen w4"
      "length (chain (w_file w5)) = length (chain (w_file w4))" "w_trace w5 = w_trace w4 @ v5"
    by blast
  have n5: "w_n w5 < length (chain (w_file w5))" using a5 n4 by simp
  from on_wmb_effect [OF cp n5] obtain b6 v6 where
    d6: "wd_copy iodesc (varlist (w_file w5) varid) (w_n w5) varid (w_alen w5) array
           (wmb_at (w_file w5) (w_n w5)) = (None, b6, v6)"
    and a6: "wmb_at (w_file w') (w_n w5) = b6" "w_trace w' = w_trace w5 @ v6"
    by blast
  have idx: "w_n w5 = w_n w" "w_alen w5 = w_alen w" "w_alen w1 = w_alen w" "w_n w1 = w_n w"
    using e1 a2 a3 a4 a5 by simp_all
  have old: "wmb_at (w_file w1) (w_n w) = wmb_at (w_file w) (w_n w)"
    using e1 by (simp add: wmb_at_def)
  note f2 = wd_data_effect [OF d2, unfolded idx old, folded na_def ms_def]
  note f3 = wd_vid_effect [OF d3]
  note f4 = wd_frame_effect [OF d4]
  note f5 = wd_fill_effect [OF d5]
  note f6 = wd_copy_effect [OF d6, unfolded idx, folded ms_def]
  have b5: "num_arrays b5 = na" "data b5 = data b2"
    using f2 f3 f4 f5 a2 a3 a4 a5 by simp_all
  have cur: "wmb_at (w_file w5) (w_n w) = b5" using a5 a4 a3 a2 idx by simp
  have newb: "new = b6" using a6 idx by (simp add: new_def)
  have tr: "w_trace w' = w_trace w @ (v2 @ v3 @ v4 @ v5) @ v6"
    using e1 a2 a3 a4 a5 a6 by simp
  show ?thesis
    using f6 f2 b5 tr unfolding newb cur by (auto simp: algebra_simps)
qed

lemma write_darray_success:
  assumes f: "files st ncid = Some f" and d: "iodescs st i = Some iodesc"
    and call: "PIOc_write_darray ext st ncid varid i al array fillv = (Return NOERR, st', tr)"
  defines "ms \<equiv> mpitype_size iodesc"
  shows "\<exists>n f' pre. tr = pre @ [Ev_append n varid (bytes_at array 0 (ndof iodesc * ms))]
           \<and> files st' ncid = Some f' \<and> arraylen (wmb_at f' n) = ndof iodesc
           \<and> (ndof iodesc > 0 \<longrightarrow>
                 (\<exists>b. data (wmb_at f' n) = Some b
                    \<and> int (length b) = num_arrays (wmb_at f' n) * ndof iodesc * ms
                    \<and> bytes_at b (ndof iodesc * ms * (num_arrays (wmb_at f' n) - 1)) (ndof iodesc * ms)
                        = bytes_at array 0 (ndof iodesc * ms)
                    \<and> int (length (bytes_at array 0 (ndof iodesc * ms))) = ndof iodesc * ms))"
proof -
  have ok: "mode f AND PIO_WRITE ext \<noteq> 0" "\<not> al < ndof iodesc"
    using f d call by (auto simp: PIOc_write_darray_def split: if_splits)
  let ?al = "if al > ndof iodesc then ndof iodesc else al"
  let ?w = "\<lparr>w_file = f, w_n = 0, w_alen = ?al, w_needsflush = 0, w_trace = []\<rparr>"
  have al: "?al = ndof iodesc" using ok by auto
  obtain r w' where run: "wd_run ext st iodesc varid i array fillv ?w = (r, w')"
    by (cases "wd_run ext st iodesc varid i array fillv ?w")
  have res: "Return NOERR = (case r of None \<Rightarrow> Return NOERR | Some oc \<Rightarrow> oc)"
    "st' = st\<lparr>files := (files st)(ncid := Some (w_file w'))\<rparr>" "tr = w_trace w'"
    using f d call ok run by (auto simp: PIOc_write_darray_def Let_def)
  have r: "r = None"
    using wd_run_fails [of ext st iodesc varid i array fillv ?w] run res(1)
    by (cases r) (auto simp: fails_def)
  from run r obtain w1 w2 where
    p: "wd_prepare ext varid i ?w = (None, w1)"
    and sy: "wd_sync ext st iodesc varid w1 = (None, w2)"
    and ap: "wd_append ext iodesc varid array fillv w2 = (None, w')"
    by (auto simp: wd_run_def andthen_None)
  note e1 = wd_prepare_effect [OF p]
  note e2 = wd_sync_effect [OF sy]
  have n2: "w_n w2 < length (chain (w_file w2))" using e1 e2 by simp
  have a2: "w_alen w2 = ndof iodesc" "w_trace w2 = w_trace w2 @ []" using e1 e2 al by simp_all
  note e3 = wd_append_effect [OF ap n2, unfolded a2(1), folded ms_def]
  from e3 obtain pre where
    tr: "w_trace w' = w_trace w2 @ pre @ [Ev_append (w_n w2) varid (bytes_at array 0 (ndof iodesc * ms))]"
    by blast
  let ?new = "wmb_at (w_file w') (w_n w2)"
  have na: "num_arrays ?new - 1 = num_arrays (wmb_at (w_file w2) (w_n w2))"
    using e3 by simp
  have "tr = (w_trace w2 @ pre) @ [Ev_append (w_n w2) varid (bytes_at array 0 (ndof iodesc * ms))]"
    using tr res(3) by simp
  moreover have "files st' ncid = Some (w_file w')" using res(2) by simp
  moreover have "arraylen ?new = ndof iodesc" using e3 by simp
  moreover have "ndof iodesc > 0 \<longrightarrow>
                 (\<exists>b. data ?new = Some b
                    \<and> int (length b) = num_arrays ?new * ndof iodesc * ms
                    \<and> bytes_at b (ndof iodesc * ms * (num_arrays ?new - 1)) (ndof iodesc * ms)
                        = bytes_at array 0 (ndof iodesc * ms)
                    \<and> int (length (bytes_at array 0 (ndof iodesc * ms))) = ndof iodesc * ms)"
    using e3 unfolding na by auto
  ultimately show ?thesis by blast
qed

lemma memcpy_other:
  assumes "memcpy d off src soff n = Some d'" and "0 \<le> off'" and "0 \<le> m"
    and "off' + m \<le> off \<or> off + n \<le> off'"
  shows "bytes_at d' off' m = bytes_at d off' m"
proof -
  from assms(1) have b: "0 \<le> n" "0 \<le> off" "nat off + nat n \<le> length d"
    and d': "d' = take (nat off) d @ take (nat n) (drop (nat soff) src) @ drop (nat off + nat n) d"
    and s: "nat soff + nat n \<le> length src"
    by (auto simp: memcpy_def split: if_splits)
  let ?mid = "take (nat n) (drop (nat soff) src)"
  have lm: "length ?mid = nat n" using s by simp
  from assms(4) show ?thesis
  proof
    assume "off' + m \<le> off"
    then have le: "nat off' + nat m \<le> nat off" using assms(2) assms(3) by linarith
    have "take (nat m) (drop (nat off') d') = take (nat m) (drop (nat off') (take (nat off) d))"
      using le b by (simp add: d')
    also have "\<dots> = take (nat m) (drop (nat off') d)"
      using le by (simp add: drop_take min_def)
    finally show ?thesis by (simp add: bytes_at_def)
  next
    assume "off + n \<le> off'"
    then have ge: "nat off + nat n \<le> nat off'" using b by linarith
    have g1: "nat off \<le> nat off'" and g2: "nat n \<le> nat off' - nat off"
      using ge by linarith+
    have "drop (nat off') d' = drop (nat off' - nat off - nat n) (drop (nat off + nat n) d)"
      using g1 g2 b lm by (simp add: d')
    also have "\<dots> = drop (nat off') d"
      using ge by simp
    finally show ?thesis by (simp add: bytes_at_def)
  qed
qed

lemma memcpy_slot_other:
  assumes "memcpy d (ms * e) src soff ms = Some d'" and "0 \<le> e'" and "e' \<noteq> e"
  shows "bytes_at d' (ms * e') ms = bytes_at d (ms * e') ms"
proof -
  from assms(1) have ms: "0 \<le> ms" and off: "0 \<le> ms * e"
    by (auto simp: memcpy_def split: if_splits)
  show ?thesis
  proof (cases "ms = 0")
    case True
    then show ?thesis by (simp add: bytes_at_def)
  next
    case False
    with ms have pos: "0 < ms" by simp
    have "ms * e' + ms \<le> ms * e \<or> ms * e + ms \<le> ms * e'"
    proof (cases "e' < e")
      case True
      then have "ms * (e' + 1) \<le> ms * e" using pos by (intro mult_left_mono) auto
      then show ?thesis by (simp add: algebra_simps)
    next
      case False
      with assms(3) have "e + 1 \<le> e'" by simp
      then have "ms * (e + 1) \<le> ms * e'" using pos by (intro mult_left_mono) auto
      then show ?thesis by (simp add: algebra_simps)
    qed
    moreover have "0 \<le> ms * e'" using ms assms(2) by simp
    ultimately show ?thesis using memcpy_other [OF assms(1) _ ms] by blast
  qed
qed

lemma memcpy_slot_same:
  assumes "memcpy d (ms * e) src soff ms = Some d'"
  shows "bytes_at d' (ms * e) ms = bytes_at src soff ms \<and> length d' = length d"
  using memcpy_Some [OF assms] by simp

lemma fill_one_None: "foldl (fill_one ms fv cnt nv) None is = None"
  by (induction "is") (simp_all add: fill_one_def)

lemma fill_var_None: "foldl (fill_var ms fv cnt) None ns = None"
  by (induction ns) (simp_all add: fill_var_def fill_one_None)

lemma fill_inner:
  assumes "- 1 \<le> k" and "foldl (fill_one ms fv cnt nv) (Some d) [0..k] = Some d'"
    and "0 \<le> nv * cnt"
  shows "length d' = length d
         \<and> (\<forall>i. 0 \<le> i \<and> i \<le> k \<longrightarrow>
               bytes_at d' (ms * (i + nv * cnt)) ms = bytes_at fv (nv * ms) ms)
         \<and> (\<forall>e. 0 \<le> e \<and> (e < nv * cnt \<or> nv * cnt + k < e) \<longrightarrow>
               bytes_at d' (ms * e) ms = bytes_at d (ms * e) ms)"
  using assms(1) assms(2)
proof (induction k arbitrary: d' rule: int_ge_induct)
  case base
  then show ?case by auto
next
  case (step k)
  have up: "[0..k + 1] = [0..k] @ [k + 1]"
    using step.hyps upto_rec2 [of 0 "k + 1"] by simp
  define r where "r = foldl (fill_one ms fv cnt nv) (Some d) [0..k]"
  have sp: "fill_one ms fv cnt nv r (k + 1) = Some d'"
    using step.prems unfolding r_def up by simp
  have "\<exists>d1. r = Some d1 \<and> memcpy d1 (ms * (k + 1 + nv * cnt)) fv (nv * ms) ms = Some d'"
    using sp by (cases r) (simp_all add: fill_one_def)
  then obtain d1 where d1: "foldl (fill_one ms fv cnt nv) (Some d) [0..k] = Some d1"
    and cp: "memcpy d1 (ms * (k + 1 + nv * cnt)) fv (nv * ms) ms = Some d'"
    unfolding r_def by blast
  note ih = step.IH [OF d1]
  note same = memcpy_slot_same [OF cp]
  have other: "\<And>e. 0 \<le> e \<Longrightarrow> e \<noteq> k + 1 + nv * cnt \<Longrightarrow>
                 bytes_at d' (ms * e) ms = bytes_at d1 (ms * e) ms"
    using memcpy_slot_other [OF cp] by blast
  show ?case
  proof (intro conjI allI impI)
    show "length d' = length d" using same ih by simp
  next
    fix i assume i: "0 \<le> i \<and> i \<le> k + 1"
    show "bytes_at d' (ms * (i + nv * cnt)) ms = bytes_at fv (nv * ms) ms"
    proof (cases "i = k + 1")
      case True
      then show ?thesis using same by simp
    next
      case False
      with i have ik: "0 \<le> i \<and> i \<le> k" by simp
      have "bytes_at d' (ms * (i + nv * cnt)) ms = bytes_at d1 (ms * (i + nv * cnt)) ms"
        using False i assms(3) by (intro other) auto
      then show ?thesis using ih ik by simp
    qed
  next
    fix e assume e: "0 \<le> e \<and> (e < nv * cnt \<or> nv * cnt + (k + 1) < e)"
    have "bytes_at d' (ms * e) ms = bytes_at d1 (ms * e) ms"
      using e step.hyps by (intro other) auto
    moreover have "bytes_at d1 (ms * e) ms = bytes_at d (ms * e) ms"
      using ih e by auto
    ultimately show "bytes_at d' (ms * e) ms = bytes_at d (ms * e) ms" by simp
  qed
qed

lemma fill_outer:
  assumes "- 1 \<le> n" and "foldl (fill_var ms fv cnt) (Some d) [0..n] = Some d'" and "0 \<le> cnt"
  shows "length d' = length d
         \<and> (\<forall>nv i. 0 \<le> nv \<and> nv \<le> n \<and> 0 \<le> i \<and> i < cnt \<longrightarrow>
               bytes_at d' (ms * (i + nv * cnt)) ms = bytes_at fv (nv * ms) ms)
         \<and> (\<forall>e. (n + 1) * cnt \<le> e \<longrightarrow> bytes_at d' (ms * e) ms = bytes_at d (ms * e) ms)"
  using assms(1) assms(2)
proof (induction n arbitrary: d' rule: int_ge_induct)
  case base
  then show ?case by auto
next
  case (step n)
  have up: "[0..n + 1] = [0..n] @ [n + 1]"
    using step.hyps upto_rec2 [of 0 "n + 1"] by simp
  define r where "r = foldl (fill_var ms fv cnt) (Some d) [0..n]"
  have sp: "fill_var ms fv cnt r (n + 1) = Some d'"
    using step.prems unfolding r_def up by simp
  have "\<exists>d1. r = Some d1 \<and> foldl (fill_one ms fv cnt (n + 1)) (Some d1) [0..cnt - 1] = Some d'"
    using sp by (cases r) (simp_all add: fill_var_def fill_one_None)
  then obtain d1 where d1: "foldl (fill_var ms fv cnt) (Some d) [0..n] = Some d1"
    and fv: "foldl (fill_one ms fv cnt (n + 1)) (Some d1) [0..cnt - 1] = Some d'"
    unfolding r_def by blast
  note ih = step.IH [OF d1]
  have nn: "0 \<le> (n + 1) * cnt" using step.hyps assms(3) by simp
  have k: "- 1 \<le> cnt - 1" using assms(3) by simp
  note inner = fill_inner [OF k fv nn]
  show ?case
  proof (intro conjI allI impI)
    show "length d' = length d" using inner ih by simp
  next
    fix nv i assume h: "0 \<le> nv \<and> nv \<le> n + 1 \<and> 0 \<le> i \<and> i < cnt"
    show "bytes_at d' (ms * (i + nv * cnt)) ms = bytes_at fv (nv * ms) ms"
    proof (cases "nv = n + 1")
      case True
      then show ?thesis using inner h by simp
    next
      case False
      with h have nv: "0 \<le> nv \<and> nv \<le> n" by simp
      have "nv * cnt \<le> n * cnt"
        using nv assms(3) by (intro mult_right_mono) auto
      moreover have "(n + 1) * cnt = n * cnt + cnt" by (simp add: algebra_simps)
      ultimately have lt: "i + nv * cnt < (n + 1) * cnt" using h by linarith
      have ge: "0 \<le> i + nv * cnt" using h nv assms(3) by simp
      have "bytes_at d' (ms * (i + nv * cnt)) ms = bytes_at d1 (ms * (i + nv * cnt)) ms"
        using inner lt ge by blast
      then show ?thesis using ih nv h by simp
    qed
  next
    fix e assume e: "(n + 1 + 1) * cnt \<le> e"
    have e1: "(n + 1) * cnt + (cnt - 1) < e" using e by (simp add: algebra_simps)
    have e0: "0 \<le> e" using e1 nn assms(3) by linarith
    have e2: "(n + 1) * cnt \<le> e" using e1 assms(3) by linarith
    have "bytes_at d' (ms * e) ms = bytes_at d1 (ms * e) ms"
      using inner e0 e1 by blast
    then show "bytes_at d' (ms * e) ms = bytes_at d (ms * e) ms"
      using ih e2 by simp
  qed
qed

lemma fill_loops_effect:
  assumes "fill_loops ms fv cnt nvars d = Some d'" and "0 < nvars" and "0 < cnt"
  shows "length d' = length d
         \<and> (\<forall>nv i. 0 \<le> nv \<and> nv < nvars \<and> 0 \<le> i \<and> i < cnt \<longrightarrow>
               bytes_at d' (ms * (i + nv * cnt)) ms = bytes_at fv (nv * ms) ms)
         \<and> (\<forall>e. nvars * cnt \<le> e \<longrightarrow> bytes_at d' (ms * e) ms = bytes_at d (ms * e) ms)"
proof -
  have n: "- 1 \<le> nvars - 1" and c: "0 \<le> cnt" using assms by simp_all
  from fill_outer [OF n assms(1) [unfolded fill_loops_def] c]
  show ?thesis by simp
qed

subsection \<open>PIOc\_write\_darray\_multi\<close>

lemma check_varids_bad:
  "n \<le> length vs \<Longrightarrow> \<exists>v\<in>set (take n vs). v < 0 \<or> mx < v \<Longrightarrow>
   check_varids mx vs n = Some (Return (Err PIO_EINVAL))"
  by (induction mx vs n rule: check_varids.induct) auto

lemma check_varids_ok:
  "n \<le> length vs \<Longrightarrow> \<forall>v\<in>set (take n vs). 0 \<le> v \<and> v \<le> mx \<Longrightarrow> check_varids mx vs n = None"
  by (induction mx vs n rule: check_varids.induct) auto

lemma logged_simps [simp]:
  "m_trace (logged m evs) = m_trace m @ evs" "m_file (logged m evs) = m_file m"
  "m_fndims (logged m evs) = m_fndims m"
  by (simp_all add: logged_def)

lemma wm_quiet_refl [simp]: "wm_quiet m m"
  by (simp add: wm_quiet_def)

lemma wm_quiet_trans: "wm_quiet m m' \<Longrightarrow> wm_quiet m' m'' \<Longrightarrow> wm_quiet m m''"
  unfolding wm_quiet_def by fastforce

lemma wm_quiet_andthen:
  assumes "wm_quiet m (snd r)" and "\<And>s. wm_quiet s (snd (g s))"
  shows "wm_quiet m (snd (andthen r g))"
proof (cases r)
  case (Pair o1 s)
  show ?thesis
  proof (cases o1)
    case None
    then show ?thesis using Pair assms(1) assms(2) [of s]
      by (auto simp: andthen_def intro: wm_quiet_trans)
  next
    case (Some a)
    then show ?thesis using Pair assms(1) by (simp add: andthen_def)
  qed
qed

lemma bcast_params_plain: "\<forall>e\<in>set (snd (bcast_params ext e0 bs)). plain e"
  by (induction ext e0 bs rule: bcast_params.induct) (auto split: prod.splits)

lemma wm_varndims_quiet: "wm_quiet m (snd (wm_varndims ext v m))"
  by (auto simp: wm_varndims_def wm_quiet_def Let_def split: prod.splits)

lemma wm_quiet_logged: "\<forall>e\<in>set evs. plain e \<Longrightarrow> wm_quiet m (logged m evs)"
  by (simp add: wm_quiet_def)

lemma wm_quiet_fndims: "wm_quiet m m' \<Longrightarrow> wm_quiet m (m'\<lparr>m_fndims := x\<rparr>)"
  by (simp add: wm_quiet_def)

lemma wm_async_quiet: "wm_quiet m (snd (wm_async ext a b m))"
proof -
  define bs where "bs = [B_ncid, B_nvars, B_varids, B_ioid, B_arraylen, B_array, B_frame_present]
                            @ (if a then [B_frame] else [])
                            @ [B_fillvalue_present]
                            @ (if b then [B_fillvalue] else [])
                            @ [B_flushtodisk]"
  define e0 where "e0 = (if compmaster_is_root (iosystem (m_file m)) then MPI_Send_rc ext else 0)"
  define evs where "evs = (if \<not> ioproc (iosystem (m_file m))
      then (if compmaster_is_root (iosystem (m_file m)) then [Ev_send_msg] else [])
            @ snd (bcast_params ext e0 bs) else [])"
  have p: "\<forall>e\<in>set evs. plain e"
    using bcast_params_plain [of ext e0 bs] by (auto simp: evs_def)
  have t: "m_trace (snd (wm_async ext a b m)) = m_trace m
           \<or> m_trace (snd (wm_async ext a b m)) = m_trace m @ evs"
    unfolding wm_async_def evs_def e0_def bs_def
    by (simp add: Let_def case_prod_beta del: bcast_params.simps)
  have f: "m_file (snd (wm_async ext a b m)) = m_file m"
    unfolding wm_async_def
    by (simp add: Let_def case_prod_beta del: bcast_params.simps)
  from t show ?thesis
  proof
    assume "m_trace (snd (wm_async ext a b m)) = m_trace m"
    then show ?thesis using f by (simp add: wm_quiet_def)
  next
    assume "m_trace (snd (wm_async ext a b m)) = m_trace m @ evs"
    then show ?thesis using f p unfolding wm_quiet_def by auto
  qed
qed

lemma wm_preflush_quiet: "wm_quiet m (snd (wm_preflush ext m))"
  by (auto simp: wm_preflush_def wm_quiet_def flush_output_buffer_def Let_def)

lemma wm_setup_quiet: "wm_quiet m (snd (wm_setup ext v a b m))"
  unfolding wm_setup_def
  by (intro wm_quiet_andthen wm_varndims_quiet wm_async_quiet wm_preflush_quiet)

lemma wm_iobuf_trace:
  "m_trace (snd (wm_iobuf ext iodesc nvars fillv m))
     = m_trace m @ (if maxiobuflen iodesc * nvars > 0
                    then [Ev_bget A_iobuf (mpitype_size iodesc * (maxiobuflen iodesc * nvars))]
                    else if iotype (m_file m) = PIO_IOTYPE_PNETCDF \<and> ioproc (iosystem (m_file m))
                    then [Ev_bget A_token 1] else [])"
  by (simp add: wm_iobuf_def Let_def split: option.splits)

lemma wm_iobuf_file:
  "iotype (m_file (snd (wm_iobuf ext iodesc nvars fillv m))) = iotype (m_file m)"
  "iosystem (m_file (snd (wm_iobuf ext iodesc nvars fillv m))) = iosystem (m_file m)"
  "varlist (m_file (snd (wm_iobuf ext iodesc nvars fillv m))) = varlist (m_file m)"
  by (simp_all add: wm_iobuf_def Let_def split: option.splits)

lemma wm_iobuf_quiet: "wm_quiet m (snd (wm_iobuf ext iodesc nvars fillv m))"
  unfolding wm_quiet_def wm_iobuf_trace wm_iobuf_file by simp

lemma wm_free_iobuf_quiet: "wm_quiet m (snd (wm_free_iobuf m))"
  by (auto simp: wm_free_iobuf_def wm_quiet_def Let_def)

lemma wm_write_data_quiet: "wm_quiet m (snd (wm_write ext v DARRAY_DATA m))"
  by (auto simp: wm_write_def wm_quiet_def Let_def)

lemma wm_complete_quiet: "wm_quiet m (snd (wm_complete ext varids nvars fl m))"
proof -
  have a: "\<And>f. iotype (foldl (\<lambda>f v. set_var f v ((varlist f v)\<lparr>v_wb_pend := 0\<rparr>)) f vs) = iotype f
             \<and> iosystem (foldl (\<lambda>f v. set_var f v ((varlist f v)\<lparr>v_wb_pend := 0\<rparr>)) f vs) = iosystem f"
    for vs
    by (induction vs) (simp_all add: set_var_def)
  show ?thesis
    by (auto simp: wm_complete_def wm_quiet_def flush_output_buffer_def Let_def a split: prod.splits)
qed

lemma bget_length: "bget ext site n = Some d \<Longrightarrow> int (length d) = n"
  by (auto simp: bget_def split: if_splits)

lemma fill_values_effect:
  assumes "fill_values ms fv cnt nvars (Some d) = Some b" and "0 < nvars" and "0 < cnt"
  shows "\<exists>u d'. fv = Some u \<and> b = Some d' \<and> length d' = length d
           \<and> (\<forall>nv i. 0 \<le> nv \<and> nv < nvars \<and> 0 \<le> i \<and> i < cnt \<longrightarrow>
                 bytes_at d' (ms * (i + nv * cnt)) ms = bytes_at u (nv * ms) ms)
           \<and> (\<forall>e. nvars * cnt \<le> e \<longrightarrow> bytes_at d' (ms * e) ms = bytes_at d (ms * e) ms)"
proof -
  obtain u where u: "fv = Some u"
    using assms by (cases fv) (simp_all add: fill_values_def)
  obtain d' where d': "fill_loops ms u cnt nvars d = Some d'" and b: "b = Some d'"
    using assms u by (cases "fill_loops ms u cnt nvars d") (auto simp: fill_values_def)
  from fill_loops_effect [OF d' assms(2) assms(3)] u b show ?thesis by blast
qed

lemma wm_iobuf_effect:
  assumes "wm_iobuf ext iodesc nvars fillv m = (None, m')" and "0 < nvars"
  shows "(0 < maxiobuflen iodesc * nvars \<longrightarrow>
            (\<exists>d. iobuf (m_file m') = Some d
               \<and> int (length d) = mpitype_size iodesc * (maxiobuflen iodesc * nvars)
               \<and> (needsfill iodesc \<and> rearranger iodesc = PIO_REARR_BOX \<longrightarrow>
                    (\<exists>u. fillv = Some u
                       \<and> (\<forall>nv i. 0 \<le> nv \<and> nv < nvars \<and> 0 \<le> i \<and> i < maxiobuflen iodesc \<longrightarrow>
                            bytes_at d (mpitype_size iodesc * (i + nv * maxiobuflen iodesc))
                                (mpitype_size iodesc)
                              = bytes_at u (nv * mpitype_size iodesc) (mpitype_size iodesc))))))
         \<and> (maxiobuflen iodesc * nvars \<le> 0 \<and> iotype (m_file m) = PIO_IOTYPE_PNETCDF
              \<and> ioproc (iosystem (m_file m)) \<longrightarrow>
            (\<exists>d. iobuf (m_file m') = Some d \<and> length d = 1))"
proof (intro conjI impI)
  assume rl: "0 < maxiobuflen iodesc * nvars"
  then have cnt: "0 < maxiobuflen iodesc" using assms(2) by (simp add: zero_less_mult_iff)
  define sz where "sz = mpitype_size iodesc * (maxiobuflen iodesc * nvars)"
  obtain b0 where b0: "bget ext A_iobuf sz = Some b0"
    using assms(1) rl by (cases "bget ext A_iobuf sz") (simp_all add: wm_iobuf_def Let_def sz_def)
  note l0 = bget_length [OF b0]
  show "\<exists>d. iobuf (m_file m') = Some d
               \<and> int (length d) = mpitype_size iodesc * (maxiobuflen iodesc * nvars)
               \<and> (needsfill iodesc \<and> rearranger iodesc = PIO_REARR_BOX \<longrightarrow>
                    (\<exists>u. fillv = Some u
                       \<and> (\<forall>nv i. 0 \<le> nv \<and> nv < nvars \<and> 0 \<le> i \<and> i < maxiobuflen iodesc \<longrightarrow>
                            bytes_at d (mpitype_size iodesc * (i + nv * maxiobuflen iodesc))
                                (mpitype_size iodesc)
                              = bytes_at u (nv * mpitype_size iodesc) (mpitype_size iodesc))))"
  proof (cases "needsfill iodesc \<and> rearranger iodesc = PIO_REARR_BOX")
    case False
    then have "iobuf (m_file m') = Some b0"
      using assms(1) rl b0 by (auto simp: wm_iobuf_def Let_def sz_def)
    then show ?thesis using l0 False by (auto simp: sz_def)
  next
    case True
    obtain b where fvs: "fill_values (mpitype_size iodesc) fillv (maxiobuflen iodesc) nvars (Some b0) = Some b"
      and ib: "iobuf (m_file m') = b"
      using assms(1) rl b0 True
      by (cases "fill_values (mpitype_size iodesc) fillv (maxiobuflen iodesc) nvars (Some b0)")
        (auto simp: wm_iobuf_def Let_def sz_def)
    from fill_values_effect [OF fvs assms(2) cnt] ib l0 show ?thesis
      by (auto simp: sz_def)
  qed
next
  assume h: "maxiobuflen iodesc * nvars \<le> 0 \<and> iotype (m_file m) = PIO_IOTYPE_PNETCDF
              \<and> ioproc (iosystem (m_file m))"
  obtain b0 where b0: "bget ext A_token 1 = Some b0"
    using assms(1) h by (cases "bget ext A_token 1") (simp_all add: wm_iobuf_def Let_def)
  have "iobuf (m_file m') = Some b0"
    using assms(1) h b0 by (auto simp: wm_iobuf_def Let_def)
  then show "\<exists>d. iobuf (m_file m') = Some d \<and> length d = 1"
    using bget_length [OF b0] by simp
qed

lemma wm_rearrange_trace:
  "m_trace (snd (wm_rearrange ext array nvars m))
     = m_trace m @ [Ev_rearrange (iobuf (m_file m)) nvars]"
  "iotype (m_file (snd (wm_rearrange ext array nvars m))) = iotype (m_file m)"
  "iosystem (m_file (snd (wm_rearrange ext array nvars m))) = iosystem (m_file m)"
  "varlist (m_file (snd (wm_rearrange ext array nvars m))) = varlist (m_file m)"
  by (simp_all add: wm_rearrange_def Let_def case_prod_beta)

lemma wm_data_pass_trace:
  "\<exists>evs. m_trace (snd (wm_data_pass ext v array nvars m))
            = m_trace m @ Ev_rearrange (iobuf (m_file m)) nvars # evs
         \<and> (\<forall>e\<in>set evs. plain e)
         \<and> iotype (m_file (snd (wm_data_pass ext v array nvars m))) = iotype (m_file m)
         \<and> iosystem (m_file (snd (wm_data_pass ext v array nvars m))) = iosystem (m_file m)"
proof -
  have "wm_quiet (snd (wm_rearrange ext array nvars m)) (snd (wm_data_pass ext v array nvars m))"
    unfolding wm_data_pass_def
    by (intro wm_quiet_andthen wm_quiet_refl wm_write_data_quiet wm_free_iobuf_quiet)
  then show ?thesis
    unfolding wm_quiet_def wm_rearrange_trace by auto
qed

lemma wm_write_effect:
  "m_file (snd (wm_write ext v md m)) = m_file m"
  "m_trace (snd (wm_write ext v md m))
     = m_trace m @
       (if iotype (m_file m) = PIO_IOTYPE_NETCDF4P \<or> iotype (m_file m) = PIO_IOTYPE_PNETCDF
        then [Ev_write_par md (iobuf (m_file m)) (fillbuf (varlist (m_file m) v))]
        else if iotype (m_file m) = PIO_IOTYPE_NETCDF4C \<or> iotype (m_file m) = PIO_IOTYPE_NETCDF
        then [Ev_write_serial md (iobuf (m_file m)) (fillbuf (varlist (m_file m) v))]
        else [])"
  by (simp_all add: wm_write_def Let_def)

lemma wm_write_ok:
  "fst (wm_write ext v md m) = None \<Longrightarrow>
   iotype (m_file m) = PIO_IOTYPE_NETCDF4P \<or> iotype (m_file m) = PIO_IOTYPE_PNETCDF
   \<or> iotype (m_file m) = PIO_IOTYPE_NETCDF4C \<or> iotype (m_file m) = PIO_IOTYPE_NETCDF"
  by (auto simp: wm_write_def Let_def split: if_splits)

lemma wm_fillbuf_effect:
  "m_trace (wm_fillbuf ext iodesc v nvars m)
     = m_trace m @
       (if io_rank (iosystem (m_file m)) = 0
        then [Ev_bget A_fillbuf (maxholegridsize iodesc * mpitype_size iodesc * nvars)]
        else if holegridsize iodesc > 0
        then [Ev_bget A_fillbuf (holegridsize iodesc * mpitype_size iodesc * nvars)]
        else [])"
  "iotype (m_file (wm_fillbuf ext iodesc v nvars m)) = iotype (m_file m)"
  "iosystem (m_file (wm_fillbuf ext iodesc v nvars m)) = iosystem (m_file m)"
  "iobuf (m_file (wm_fillbuf ext iodesc v nvars m)) = iobuf (m_file m)"
  "fillbuf (varlist (m_file (wm_fillbuf ext iodesc v nvars m)) v)
     = (if io_rank (iosystem (m_file m)) = 0
        then bget ext A_fillbuf (maxholegridsize iodesc * mpitype_size iodesc * nvars)
        else if holegridsize iodesc > 0
        then bget ext A_fillbuf (holegridsize iodesc * mpitype_size iodesc * nvars)
        else fillbuf (varlist (m_file m) v))"
  by (simp_all add: wm_fillbuf_def Let_def)

lemma wm_fill_holes_effect:
  "m_trace (snd (wm_fill_holes iodesc v nvars fillv m)) = m_trace m"
  "iotype (m_file (snd (wm_fill_holes iodesc v nvars fillv m))) = iotype (m_file m)"
  "iosystem (m_file (snd (wm_fill_holes iodesc v nvars fillv m))) = iosystem (m_file m)"
  "iobuf (m_file (snd (wm_fill_holes iodesc v nvars fillv m))) = iobuf (m_file m)"
  by (simp_all add: wm_fill_holes_def Let_def split: option.splits)

lemma wm_fill_holes_ok:
  "fst (wm_fill_holes iodesc v nvars fillv m) = None \<Longrightarrow>
   fill_values (mpitype_size iodesc) fillv (holegridsize iodesc) nvars
       (fillbuf (varlist (m_file m) v))
     = Some (fillbuf (varlist (m_file (snd (wm_fill_holes iodesc v nvars fillv m))) v))"
  by (simp add: wm_fill_holes_def Let_def split: option.splits)

lemma wm_free_fillbuf_effect:
  "fst (wm_free_fillbuf v m) = None"
  "m_trace (snd (wm_free_fillbuf v m))
     = m_trace m @
       (if iotype (m_file m) \<noteq> PIO_IOTYPE_PNETCDF \<and> fillbuf (varlist (m_file m) v) \<noteq> None
        then [Ev_brel A_fillbuf] else [])"
  "iotype (m_file (snd (wm_free_fillbuf v m))) = iotype (m_file m)"
  "iosystem (m_file (snd (wm_free_fillbuf v m))) = iosystem (m_file m)"
  "iotype (m_file m) \<noteq> PIO_IOTYPE_PNETCDF \<Longrightarrow>
     fillbuf (varlist (m_file (snd (wm_free_fillbuf v m))) v) = None"
  by (simp_all add: wm_free_fillbuf_def Let_def)

lemma andthen_fst:
  "fst r = Some oc \<Longrightarrow> andthen r g = r"
  "fst r = None \<Longrightarrow> andthen r g = g (snd r)"
  by (cases r; simp)+

lemma wm_holefill_effect:
  assumes run: "wm_holefill ext iodesc v nvars fillv m = (r, m')"
  shows "\<exists>evs. m_trace m' = m_trace m @ evs
           \<and> iotype (m_file m') = iotype (m_file m) \<and> iosystem (m_file m') = iosystem (m_file m)
           \<and> (\<forall>e\<in>set evs. plain e \<or> e = Ev_brel A_fillbuf
                           \<or> (\<exists>ib fb. e = Ev_write_par DARRAY_FILL ib fb
                                     \<or> e = Ev_write_serial DARRAY_FILL ib fb))
           \<and> (\<forall>ib fb. Ev_write_par DARRAY_FILL ib fb \<in> set evs
                      \<or> Ev_write_serial DARRAY_FILL ib fb \<in> set evs \<longrightarrow>
                  rearranger iodesc = PIO_REARR_SUBSET \<and> needsfill iodesc
                  \<and> (io_rank (iosystem (m_file m)) = 0 \<longrightarrow>
                       Ev_bget A_fillbuf (maxholegridsize iodesc * mpitype_size iodesc * nvars) \<in> set evs)
                  \<and> (io_rank (iosystem (m_file m)) \<noteq> 0 \<and> holegridsize iodesc > 0 \<longrightarrow>
                       Ev_bget A_fillbuf (holegridsize iodesc * mpitype_size iodesc * nvars) \<in> set evs)
                  \<and> fill_values (mpitype_size iodesc) fillv (holegridsize iodesc) nvars
                        (if io_rank (iosystem (m_file m)) = 0
                         then bget ext A_fillbuf (maxholegridsize iodesc * mpitype_size iodesc * nvars)
                         else if holegridsize iodesc > 0
                         then bget ext A_fillbuf (holegridsize iodesc * mpitype_size iodesc * nvars)
                         else fillbuf (varlist (m_file m) v)) = Some fb
                  \<and> (r = None \<and> iotype (m_file m) \<noteq> PIO_IOTYPE_PNETCDF \<and> fb \<noteq> None \<longrightarrow>
                       Ev_brel A_fillbuf \<in> set evs))
           \<and> (r = None \<and> rearranger iodesc = PIO_REARR_SUBSET \<and> needsfill iodesc \<longrightarrow>
                  (\<exists>ib fb. Ev_write_par DARRAY_FILL ib fb \<in> set evs
                      \<or> Ev_write_serial DARRAY_FILL ib fb \<in> set evs)
                  \<and> (iotype (m_file m) \<noteq> PIO_IOTYPE_PNETCDF \<longrightarrow>
                       fillbuf (varlist (m_file m') v) = None))
           \<and> (iotype (m_file m) = PIO_IOTYPE_PNETCDF \<longrightarrow> Ev_brel A_fillbuf \<notin> set evs)"
proof (cases "rearranger iodesc = PIO_REARR_SUBSET \<and> needsfill iodesc
              \<and> pioassert ext (fillbuf (varlist (m_file m) v) = None) ''buffer overwrite'' = None")
  case False
  have "m' = m \<and> \<not> (r = None \<and> rearranger iodesc = PIO_REARR_SUBSET \<and> needsfill iodesc)"
  proof (cases "rearranger iodesc = PIO_REARR_SUBSET \<and> needsfill iodesc")
    case False
    then show ?thesis using run by (auto simp: wm_holefill_def)
  next
    case sn: True
    with False obtain oc where
      "pioassert ext (fillbuf (varlist (m_file m) v) = None) ''buffer overwrite'' = Some oc"
      by (cases "pioassert ext (fillbuf (varlist (m_file m) v) = None) ''buffer overwrite''") auto
    with sn have "wm_holefill ext iodesc v nvars fillv m = (Some oc, m)"
      by (simp add: wm_holefill_def)
    with run have "r = Some oc" "m' = m" by simp_all
    then show ?thesis by simp
  qed
  then show ?thesis by (intro exI [of _ "[]"]) simp
next
  case True
  define m1 where "m1 = wm_fillbuf ext iodesc v nvars m"
  define s2 where "s2 = wm_fill_holes iodesc v nvars fillv m1"
  define s3 where "s3 = wm_write ext v DARRAY_FILL (snd s2)"
  define s4 where "s4 = wm_free_fillbuf v (snd s3)"
  define aevs where "aevs = (if io_rank (iosystem (m_file m)) = 0
        then [Ev_bget A_fillbuf (maxholegridsize iodesc * mpitype_size iodesc * nvars)]
        else if holegridsize iodesc > 0
        then [Ev_bget A_fillbuf (holegridsize iodesc * mpitype_size iodesc * nvars)]
        else [])"
  define fb0 where "fb0 = (if io_rank (iosystem (m_file m)) = 0
                         then bget ext A_fillbuf (maxholegridsize iodesc * mpitype_size iodesc * nvars)
                         else if holegridsize iodesc > 0
                         then bget ext A_fillbuf (holegridsize iodesc * mpitype_size iodesc * nvars)
                         else fillbuf (varlist (m_file m) v))"
  define fb1 where "fb1 = fillbuf (varlist (m_file (snd s2)) v)"
  define wevs where "wevs =
       (if iotype (m_file m) = PIO_IOTYPE_NETCDF4P \<or> iotype (m_file m) = PIO_IOTYPE_PNETCDF
        then [Ev_write_par DARRAY_FILL (iobuf (m_file m)) fb1]
        else if iotype (m_file m) = PIO_IOTYPE_NETCDF4C \<or> iotype (m_file m) = PIO_IOTYPE_NETCDF
        then [Ev_write_serial DARRAY_FILL (iobuf (m_file m)) fb1]
        else [])"
  define revs where "revs =
       (if iotype (m_file m) \<noteq> PIO_IOTYPE_PNETCDF \<and> fb1 \<noteq> None then [Ev_brel A_fillbuf] else [])"
  have run': "(r, m') = andthen (andthen s2 (wm_write ext v DARRAY_FILL)) (wm_free_fillbuf v)"
    using run True by (simp add: wm_holefill_def s2_def m1_def)
  have t1: "m_trace m1 = m_trace m @ aevs" and f1: "iotype (m_file m1) = iotype (m_file m)"
    "iosystem (m_file m1) = iosystem (m_file m)" "iobuf (m_file m1) = iobuf (m_file m)"
    "fillbuf (varlist (m_file m1) v) = fb0"
    unfolding m1_def aevs_def fb0_def by (simp_all only: wm_fillbuf_effect)
  have t2: "m_trace (snd s2) = m_trace m @ aevs" and f2: "iotype (m_file (snd s2)) = iotype (m_file m)"
    "iosystem (m_file (snd s2)) = iosystem (m_file m)" "iobuf (m_file (snd s2)) = iobuf (m_file m)"
    unfolding s2_def by (simp_all add: wm_fill_holes_effect t1 f1)
  have t3: "m_trace (snd s3) = m_trace m @ aevs @ wevs" and f3: "m_file (snd s3) = m_file (snd s2)"
    unfolding s3_def wevs_def fb1_def by (simp_all add: wm_write_effect t2 f2)
  have t4: "m_trace (snd s4) = m_trace m @ aevs @ wevs @ revs"
    and f4: "iotype (m_file (snd s4)) = iotype (m_file m)"
    "iosystem (m_file (snd s4)) = iosystem (m_file m)"
    "iotype (m_file m) \<noteq> PIO_IOTYPE_PNETCDF \<longrightarrow> fillbuf (varlist (m_file (snd s4)) v) = None"
    unfolding s4_def revs_def by (simp_all add: wm_free_fillbuf_effect t3 f3 f2 fb1_def)
  have a_plain: "\<forall>e\<in>set aevs. plain e" by (simp add: aevs_def)
  have r_plain: "\<forall>e\<in>set revs. e = Ev_brel A_fillbuf" by (simp add: revs_def)
  have a_now: "\<forall>ib fb. Ev_write_par DARRAY_FILL ib fb \<notin> set aevs
                     \<and> Ev_write_serial DARRAY_FILL ib fb \<notin> set aevs \<and> Ev_brel A_fillbuf \<notin> set aevs"
    by (simp add: aevs_def)
  have r_now: "\<forall>ib fb. Ev_write_par DARRAY_FILL ib fb \<notin> set revs
                     \<and> Ev_write_serial DARRAY_FILL ib fb \<notin> set revs"
    by (simp add: revs_def)
  have w_form: "\<forall>e\<in>set wevs. \<exists>ib fb. e = Ev_write_par DARRAY_FILL ib fb
                      \<or> e = Ev_write_serial DARRAY_FILL ib fb"
    "\<forall>ib fb. Ev_write_par DARRAY_FILL ib fb \<in> set wevs
                \<or> Ev_write_serial DARRAY_FILL ib fb \<in> set wevs \<longrightarrow> fb = fb1"
    by (auto simp: wevs_def)
  have a_in: "(io_rank (iosystem (m_file m)) = 0 \<longrightarrow>
                 Ev_bget A_fillbuf (maxholegridsize iodesc * mpitype_size iodesc * nvars) \<in> set aevs)
              \<and> (io_rank (iosystem (m_file m)) \<noteq> 0 \<and> holegridsize iodesc > 0 \<longrightarrow>
                 Ev_bget A_fillbuf (holegridsize iodesc * mpitype_size iodesc * nvars) \<in> set aevs)"
    by (simp add: aevs_def)
  show ?thesis
  proof (cases "fst s2")
    case (Some oc)
    then have "(r, m') = s2" using run' by (simp add: andthen_fst)
    then have r: "r = Some oc" and m': "m' = snd s2" using Some by (auto simp: prod_eq_iff)
    show ?thesis
      unfolding fb0_def [symmetric]
      using a_plain a_now by (intro exI [of _ aevs]) (simp add: m' r t2 f2)
  next
    case None
    have fv: "fill_values (mpitype_size iodesc) fillv (holegridsize iodesc) nvars fb0 = Some fb1"
      using wm_fill_holes_ok [of iodesc v nvars fillv m1] None
      by (simp add: s2_def [symmetric] f1 fb1_def)
    have run2: "(r, m') = andthen s3 (wm_free_fillbuf v)"
      using run' None by (simp add: andthen_fst s3_def)
    show ?thesis
    proof (cases "fst s3")
      case (Some oc)
      then have "(r, m') = s3" using run2 by (simp add: andthen_fst)
      then have r: "r = Some oc" and m': "m' = snd s3" using Some by (auto simp: prod_eq_iff)
      have nb: "Ev_brel A_fillbuf \<notin> set wevs" by (simp add: wevs_def)
      show ?thesis
        unfolding fb0_def [symmetric]
        apply (intro exI [of _ "aevs @ wevs"])
        using a_plain a_now w_form a_in fv True nb
        apply (simp add: m' r t3 f3 f2)
        apply (intro conjI ballI allI impI; blast)
        done
    next
      case None
      then have "(r, m') = s4" using run2 by (simp add: andthen_fst s4_def)
      moreover have "fst s4 = None" by (simp add: s4_def wm_free_fillbuf_effect)
      ultimately have r: "r = None" and m': "m' = snd s4" by (auto simp: prod_eq_iff)
      have w: "wevs = [Ev_write_par DARRAY_FILL (iobuf (m_file m)) fb1]
               \<or> wevs = [Ev_write_serial DARRAY_FILL (iobuf (m_file m)) fb1]"
        using wm_write_ok [of ext v DARRAY_FILL "snd s2"] None
        by (auto simp: s3_def [symmetric] f2 wevs_def)
      have rv: "iotype (m_file m) \<noteq> PIO_IOTYPE_PNETCDF \<and> fb1 \<noteq> None \<longrightarrow> Ev_brel A_fillbuf \<in> set revs"
        "iotype (m_file m) = PIO_IOTYPE_PNETCDF \<longrightarrow> revs = []"
        by (simp_all add: revs_def)
      show ?thesis
        unfolding fb0_def [symmetric]
        apply (intro exI [of _ "aevs @ wevs @ revs"])
        using a_plain r_plain a_now r_now a_in fv True rv f4 w
        apply (simp add: m' r t4)
        apply (elim disjE)
         apply (simp, blast)
        apply (simp, blast)
        done
    qed
  qed
qed

lemma wm_steps_fail:
  "fails (fst (wm_varndims ext v m))" "fails (fst (wm_async ext a b m))"
  "fails (fst (wm_preflush ext m))" "fails (fst (wm_iobuf ext iodesc nvars fillv m))"
  "fails (fst (wm_rearrange ext array nvars m))" "fails (fst (wm_write ext v md m))"
  "fails (fst (wm_free_iobuf m))" "fails (fst (wm_fill_holes iodesc v nvars fillv m))"
  "fails (fst (wm_free_fillbuf v m))" "fails (fst (wm_complete ext varids nvars fl m))"
  by (auto simp: fails_def wm_varndims_def wm_async_def wm_preflush_def wm_iobuf_def
      wm_rearrange_def wm_write_def wm_free_iobuf_def wm_fill_holes_def wm_free_fillbuf_def
      wm_complete_def pioassert_def Let_def case_prod_beta
      simp del: bcast_params.simps split: option.splits if_splits)

lemma wm_holefill_fails: "fails (fst (wm_holefill ext iodesc v nvars fillv m))"
proof (cases "pioassert ext (fillbuf (varlist (m_file m) v) = None) ''buffer overwrite''")
  case None
  have "fails (fst (andthen (andthen
               (wm_fill_holes iodesc v nvars fillv (wm_fillbuf ext iodesc v nvars m))
               (wm_write ext v DARRAY_FILL))
               (wm_free_fillbuf v)))"
    by (intro fails_andthen wm_steps_fail)
  then show ?thesis using None by (simp add: wm_holefill_def fails_def)
next
  case (Some oc)
  then show ?thesis by (auto simp: wm_holefill_def fails_def pioassert_def split: if_splits)
qed

lemma wm_run_fails:
  "fails (fst (wm_run ext iodesc varids nvars array fp fillv fl m))"
  unfolding wm_run_def wm_setup_def wm_data_pass_def
  by (intro fails_andthen wm_steps_fail wm_holefill_fails)

lemma wm_complete_fillbuf:
  assumes "iotype (m_file m) \<noteq> PIO_IOTYPE_PNETCDF"
  shows "fillbuf (varlist (m_file (snd (wm_complete ext varids nvars fl m))) v)
           = fillbuf (varlist (m_file m) v)"
proof -
  have a: "\<And>f. fillbuf (varlist (foldl (\<lambda>f v. set_var f v ((varlist f v)\<lparr>v_wb_pend := 0\<rparr>)) f vs) v)
             = fillbuf (varlist f v)" for vs
    by (induction vs) (simp_all add: set_var_def)
  show ?thesis using assms by (simp add: wm_complete_def Let_def a)
qed

lemma wm_complete_brel:
  "Ev_brel A_fillbuf \<in> set (m_trace (snd (wm_complete ext varids nvars fl m)))
     \<longleftrightarrow> Ev_brel A_fillbuf \<in> set (m_trace m)"
  by (simp add: wm_complete_def Let_def case_prod_beta)

text \<open>
  The shape of a run: it stops before the rearrangement having added plain events only,
  or it reaches the rearrangement with the buffer of the allocation step and then goes
  through the data pass, the hole-fill pass and the completion as far as they succeed.
\<close>

lemma wm_run_cases:
  assumes run: "wm_run ext iodesc varids nvars array fp fillv fl m = (r, m')"
  shows "(wm_quiet m m' \<and> r \<noteq> None)
         \<or> (\<exists>m1 m2 m3 evs3.
               wm_quiet m m1 \<and> wm_iobuf ext iodesc nvars fillv m1 = (None, m2)
               \<and> m_trace m3 = m_trace m2 @ Ev_rearrange (iobuf (m_file m2)) nvars # evs3
               \<and> (\<forall>e\<in>set evs3. plain e)
               \<and> iotype (m_file m3) = iotype (m_file m) \<and> iosystem (m_file m3) = iosystem (m_file m)
               \<and> ((r \<noteq> None \<and> m' = m3)
                  \<or> (\<exists>r4 m4. wm_holefill ext iodesc (hd varids) nvars fillv m3 = (r4, m4)
                        \<and> ((r4 \<noteq> None \<and> r = r4 \<and> m' = m4)
                           \<or> (r4 = None \<and> wm_complete ext varids nvars fl m4 = (r, m'))))))"
proof -
  define s1 where "s1 = wm_setup ext (hd varids) fp (fillv \<noteq> None) m"
  define s2 where "s2 = wm_iobuf ext iodesc nvars fillv (snd s1)"
  define s3 where "s3 = wm_data_pass ext (hd varids) array nvars (snd s2)"
  define s4 where "s4 = wm_holefill ext iodesc (hd varids) nvars fillv (snd s3)"
  define s5 where "s5 = wm_complete ext varids nvars fl (snd s4)"
  have q1: "wm_quiet m (snd s1)" unfolding s1_def by (rule wm_setup_quiet)
  have q2: "wm_quiet (snd s1) (snd s2)" unfolding s2_def by (rule wm_iobuf_quiet)
  have run': "(r, m') = andthen (andthen (andthen (andthen s1
       (wm_iobuf ext iodesc nvars fillv))
       (wm_data_pass ext (hd varids) array nvars))
       (wm_holefill ext iodesc (hd varids) nvars fillv))
       (wm_complete ext varids nvars fl)"
    using run by (simp add: wm_run_def s1_def)
  show ?thesis
  proof (cases "fst s1")
    case (Some oc)
    then have "(r, m') = s1" using run' by (simp add: andthen_fst)
    then have "r = Some oc" "m' = snd s1" using Some by (auto simp: prod_eq_iff)
    then show ?thesis using q1 by simp
  next
    case n1: None
    then have run2: "(r, m') = andthen (andthen (andthen s2
       (wm_data_pass ext (hd varids) array nvars))
       (wm_holefill ext iodesc (hd varids) nvars fillv))
       (wm_complete ext varids nvars fl)"
      using run' by (simp add: andthen_fst s2_def)
    show ?thesis
    proof (cases "fst s2")
      case (Some oc)
      then have "(r, m') = s2" using run2 by (simp add: andthen_fst)
      then have "r = Some oc" "m' = snd s2" using Some by (auto simp: prod_eq_iff)
      then show ?thesis using wm_quiet_trans [OF q1 q2] by simp
    next
      case n2: None
      then have ib: "wm_iobuf ext iodesc nvars fillv (snd s1) = (None, snd s2)"
        by (simp add: s2_def prod_eq_iff)
      have run3: "(r, m') = andthen (andthen s3
         (wm_holefill ext iodesc (hd varids) nvars fillv))
         (wm_complete ext varids nvars fl)"
        using run2 n2 by (simp add: andthen_fst s3_def)
      obtain evs3 where t3: "m_trace (snd s3)
            = m_trace (snd s2) @ Ev_rearrange (iobuf (m_file (snd s2))) nvars # evs3"
        and p3: "\<forall>e\<in>set evs3. plain e"
        and f3: "iotype (m_file (snd s3)) = iotype (m_file (snd s2))"
          "iosystem (m_file (snd s3)) = iosystem (m_file (snd s2))"
        using wm_data_pass_trace [of ext "hd varids" array nvars "snd s2"]
        unfolding s3_def by blast
      have f3': "iotype (m_file (snd s3)) = iotype (m_file m)"
        "iosystem (m_file (snd s3)) = iosystem (m_file m)"
        using f3 q1 q2 by (auto simp: wm_quiet_def)
      have rest: "(r \<noteq> None \<and> m' = snd s3)
                  \<or> (\<exists>r4 m4. wm_holefill ext iodesc (hd varids) nvars fillv (snd s3) = (r4, m4)
                        \<and> ((r4 \<noteq> None \<and> r = r4 \<and> m' = m4)
                           \<or> (r4 = None \<and> wm_complete ext varids nvars fl m4 = (r, m'))))"
      proof (cases "fst s3")
        case (Some oc)
        then have "(r, m') = s3" using run3 by (simp add: andthen_fst)
        then have "r = Some oc" "m' = snd s3" using Some by (auto simp: prod_eq_iff)
        then show ?thesis by simp
      next
        case n3: None
        then have run4: "(r, m') = andthen s4 (wm_complete ext varids nvars fl)"
          using run3 by (simp add: andthen_fst s4_def)
        have h: "wm_holefill ext iodesc (hd varids) nvars fillv (snd s3) = (fst s4, snd s4)"
          by (simp add: s4_def)
        show ?thesis
        proof (cases "fst s4")
          case (Some oc)
          then have "(r, m') = s4" using run4 by (simp add: andthen_fst)
          then have "r = fst s4" "m' = snd s4" by (auto simp: prod_eq_iff)
          then show ?thesis using h Some by auto
        next
          case None
          then have "wm_complete ext varids nvars fl (snd s4) = (r, m')"
            using run4 by (simp add: andthen_fst)
          then show ?thesis using h None by auto
        qed
      qed
      show ?thesis
        using q1 ib t3 p3 f3' rest by blast
    qed
  qed
qed

subsection \<open>Claims about the flush decision\<close>



lemma flush_code_range: "flush_code ext st iodesc na al \<in> {0, 1, 2}"
  by (simp add: flush_code_def local_needsflush_def PIO_wmb_needs_flush_def Let_def split_beta)








subsection \<open>Claims about the array length\<close>

text \<open>
  Claim C9. For a call of \<^verbatim>\<open>PIOc_write_darray\<close> on an open, writable file with a known
  decomposition: if \<^verbatim>\<open>arraylen < ndof\<close> the call returns \<^verbatim>\<open>PIO_EINVAL\<close>, makes no call
  into the library and leaves the whole state, the chain of buffers included, as it was; if
  \<^verbatim>\<open>arraylen > ndof\<close> the call behaves exactly as the call with \<^verbatim>\<open>arraylen = ndof\<close> on
  the first \<^verbatim>\<open>ndof\<close> elements of the array; and a successful call ends with the copy of
  exactly \<^verbatim>\<open>ndof\<close> elements of the array into the last slot of the buffer, whose data
  then holds \<^verbatim>\<open>num_arrays * ndof\<close> elements.
\<close>

theorem write_darray_arraylen:
  assumes "files st ncid = Some f" and "mode f AND PIO_WRITE ext \<noteq> 0"
    and "iodescs st i = Some iodesc"
  shows "(al < ndof iodesc \<longrightarrow>
            PIOc_write_darray ext st ncid varid i al array fillv = (Return (Err PIO_EINVAL), st, []))
         \<and> (al > ndof iodesc \<longrightarrow>
            PIOc_write_darray ext st ncid varid i al array fillv
              = PIOc_write_darray ext st ncid varid i (ndof iodesc)
                  (bytes_at array 0 (ndof iodesc * mpitype_size iodesc)) fillv)
         \<and> (fst (PIOc_write_darray ext st ncid varid i al array fillv) = Return NOERR \<longrightarrow>
            (\<exists>n f' pre.
               snd (snd (PIOc_write_darray ext st ncid varid i al array fillv))
                 = pre @ [Ev_append n varid (bytes_at array 0 (ndof iodesc * mpitype_size iodesc))]
               \<and> files (fst (snd (PIOc_write_darray ext st ncid varid i al array fillv))) ncid = Some f'
               \<and> arraylen (wmb_at f' n) = ndof iodesc
               \<and> (ndof iodesc > 0 \<longrightarrow>
                    (\<exists>b. data (wmb_at f' n) = Some b
                       \<and> int (length b) = num_arrays (wmb_at f' n) * ndof iodesc * mpitype_size iodesc
                       \<and> bytes_at b (ndof iodesc * mpitype_size iodesc * (num_arrays (wmb_at f' n) - 1))
                            (ndof iodesc * mpitype_size iodesc)
                           = bytes_at array 0 (ndof iodesc * mpitype_size iodesc)
                       \<and> int (length (bytes_at array 0 (ndof iodesc * mpitype_size iodesc)))
                           = ndof iodesc * mpitype_size iodesc))))"
proof (intro conjI impI)
  assume "al < ndof iodesc"
  then show "PIOc_write_darray ext st ncid varid i al array fillv = (Return (Err PIO_EINVAL), st, [])"
    using assms by (simp add: PIOc_write_darray_def)
next
  assume "al > ndof iodesc"
  then show "PIOc_write_darray ext st ncid varid i al array fillv
              = PIOc_write_darray ext st ncid varid i (ndof iodesc)
                  (bytes_at array 0 (ndof iodesc * mpitype_size iodesc)) fillv"
    using assms(3) by (intro write_darray_ignores_excess)
next
  let ?c = "PIOc_write_darray ext st ncid varid i al array fillv"
  assume "fst ?c = Return NOERR"
  then have "?c = (Return NOERR, fst (snd ?c), snd (snd ?c))"
    by (metis prod.collapse)
  from write_darray_success [OF assms(1) assms(3) this]
  show "\<exists>n f' pre.
               snd (snd ?c)
                 = pre @ [Ev_append n varid (bytes_at array 0 (ndof iodesc * mpitype_size iodesc))]
               \<and> files (fst (snd ?c)) ncid = Some f'
               \<and> arraylen (wmb_at f' n) = ndof iodesc
               \<and> (ndof iodesc > 0 \<longrightarrow>
                    (\<exists>b. data (wmb_at f' n) = Some b
                       \<and> int (length b) = num_arrays (wmb_at f' n) * ndof iodesc * mpitype_size iodesc
                       \<and> bytes_at b (ndof iodesc * mpitype_size iodesc * (num_arrays (wmb_at f' n) - 1))
                            (ndof iodesc * mpitype_size iodesc)
                           = bytes_at array 0 (ndof iodesc * mpitype_size iodesc)
                       \<and> int (length (bytes_at array 0 (ndof iodesc * mpitype_size iodesc)))
                           = ndof iodesc * mpitype_size iodesc))"
    .
qed

lemma write_darray_st0:
  "files st0 7 = Some file0" "iodescs st0 5 = Some iodesc0"
  by (simp_all add: st0_def)

lemma write_darray_st0_facts:
  "mode file0 AND PIO_WRITE ext0 \<noteq> 0" "ndof iodesc0 = 2" "mpitype_size iodesc0 = 2"
  "fst (PIOc_write_darray ext0 st0 7 3 5 3 [1, 2, 3, 4, 5, 6] None) = Return NOERR"
  "bytes_at [1, 2, 3, 4, 5, 6] 0 4 = [1, 2, 3, 4]"
  by code_simp+

theorem write_darray_arraylen_witness:
  "files st0 7 = Some file0 \<and> mode file0 AND PIO_WRITE ext0 \<noteq> 0 \<and> iodescs st0 5 = Some iodesc0
   \<and> 1 < ndof iodesc0
   \<and> PIOc_write_darray ext0 st0 7 3 5 1 [1, 2] None = (Return (Err PIO_EINVAL), st0, [])
   \<and> 3 > ndof iodesc0
   \<and> PIOc_write_darray ext0 st0 7 3 5 3 [1, 2, 3, 4, 5, 6] None
       = PIOc_write_darray ext0 st0 7 3 5 2 [1, 2, 3, 4] None
   \<and> fst (PIOc_write_darray ext0 st0 7 3 5 3 [1, 2, 3, 4, 5, 6] None) = Return NOERR
   \<and> (\<exists>n pre. snd (snd (PIOc_write_darray ext0 st0 7 3 5 3 [1, 2, 3, 4, 5, 6] None))
                 = pre @ [Ev_append n 3 [1, 2, 3, 4]])"
proof -
  note t1 = write_darray_arraylen [OF write_darray_st0(1) write_darray_st0_facts(1)
      write_darray_st0(2), of 1 3 "[1, 2]" None]
  note t3 = write_darray_arraylen [OF write_darray_st0(1) write_darray_st0_facts(1)
      write_darray_st0(2), of 3 3 "[1, 2, 3, 4, 5, 6]" None]
  have a: "PIOc_write_darray ext0 st0 7 3 5 1 [1, 2] None = (Return (Err PIO_EINVAL), st0, [])"
    using t1 by (simp add: write_darray_st0_facts)
  have b: "PIOc_write_darray ext0 st0 7 3 5 3 [1, 2, 3, 4, 5, 6] None
       = PIOc_write_darray ext0 st0 7 3 5 2 [1, 2, 3, 4] None"
    using t3 by (simp add: write_darray_st0_facts)
  have c: "\<exists>n pre. snd (snd (PIOc_write_darray ext0 st0 7 3 5 3 [1, 2, 3, 4, 5, 6] None))
                 = pre @ [Ev_append n 3 [1, 2, 3, 4]]"
    using t3 by (auto simp: write_darray_st0_facts)
  have h: "1 < ndof iodesc0" "3 > ndof iodesc0"
    by (simp_all add: write_darray_st0_facts)
  show ?thesis
    by (intro conjI) (rule write_darray_st0 write_darray_st0_facts a b c h)+
qed

subsection \<open>Validation of the arguments of PIOc\_write\_darray\_multi\<close>

text \<open>
  Claim C6, as the code has it. On an open file, \<^verbatim>\<open>PIOc_write_darray_multi\<close> returns
  \<^verbatim>\<open>PIO_EINVAL\<close> when \<^verbatim>\<open>nvars <= 0\<close> or \<^verbatim>\<open>varids\<close> is \<^verbatim>\<open>NULL\<close>, and when one of the
  first \<^verbatim>\<open>nvars\<close> variable ids lies outside \<^verbatim>\<open>[0, PIO_MAX_VARS]\<close>; with valid ids it
  returns \<^verbatim>\<open>PIO_EPERM\<close> when the mode of the file lacks \<^verbatim>\<open>PIO_WRITE\<close>. A decomposition
  whose rearranger is neither \<^verbatim>\<open>BOX\<close> nor \<^verbatim>\<open>SUBSET\<close> does not produce an error return:
  it fails the assertion \<^verbatim>\<open>"unknown rearranger"\<close> (when assertions are compiled in). In each
  of these cases the library state is unchanged and nothing has been allocated, exchanged or
  dispatched (the trace of the call is empty).
\<close>

theorem write_darray_multi_validation:
  assumes "files st ncid = Some f"
  shows "(nvars \<le> 0 \<or> varids = None \<longrightarrow>
            PIOc_write_darray_multi ext st ncid varids i nvars al array frm fillv flushtodisk
              = (Return (Err PIO_EINVAL), st, []))
         \<and> (\<forall>vs. varids = Some vs \<and> 0 < nvars \<and> nat nvars \<le> length vs \<longrightarrow>
            ((\<exists>v\<in>set (take (nat nvars) vs). v < 0 \<or> PIO_MAX_VARS ext < v) \<longrightarrow>
               PIOc_write_darray_multi ext st ncid varids i nvars al array frm fillv flushtodisk
                 = (Return (Err PIO_EINVAL), st, []))
            \<and> ((\<forall>v\<in>set (take (nat nvars) vs). 0 \<le> v \<and> v \<le> PIO_MAX_VARS ext) \<longrightarrow>
                (mode f AND PIO_WRITE ext = 0 \<longrightarrow>
                   PIOc_write_darray_multi ext st ncid varids i nvars al array frm fillv flushtodisk
                     = (Return (Err PIO_EPERM), st, []))
                \<and> (\<forall>iodesc. mode f AND PIO_WRITE ext \<noteq> 0 \<and> iodescs st i = Some iodesc
                       \<and> rearranger iodesc \<noteq> PIO_REARR_BOX \<and> rearranger iodesc \<noteq> PIO_REARR_SUBSET
                       \<and> \<not> NDEBUG ext \<longrightarrow>
                   PIOc_write_darray_multi ext st ncid varids i nvars al array frm fillv flushtodisk
                     = (Assert_failed ''unknown rearranger'', st, []))))"
  using assms
  by (auto simp: PIOc_write_darray_multi_def check_varids_bad check_varids_ok pioassert_def)

lemma write_darray_multi_states:
  "files st0 7 = Some file0"
  "files st_readonly 7 = Some (file0\<lparr>mode := 0\<rparr>)"
  "files st_unknown 7 = Some file0" "iodescs st_unknown 5 = Some iodesc_unknown"
  by (simp_all add: st_unknown_def st_readonly_def st0_def)

lemma write_darray_multi_states_facts:
  "mode (file0\<lparr>mode := 0\<rparr>) AND PIO_WRITE ext0 = 0" "mode file0 AND PIO_WRITE ext0 \<noteq> 0"
  "rearranger iodesc_unknown \<noteq> PIO_REARR_BOX" "rearranger iodesc_unknown \<noteq> PIO_REARR_SUBSET"
  "\<not> NDEBUG ext0" "PIO_MAX_VARS ext0 = 8192"
  by code_simp+

theorem write_darray_multi_validation_witness:
  "PIOc_write_darray_multi ext0 st0 7 (Some [3, 4]) 5 0 2 [1, 2, 3, 4] None None False
     = (Return (Err PIO_EINVAL), st0, [])
   \<and> PIOc_write_darray_multi ext0 st0 7 (Some [3, 9000]) 5 2 2 [1, 2, 3, 4] None None False
     = (Return (Err PIO_EINVAL), st0, [])
   \<and> PIOc_write_darray_multi ext0 st_readonly 7 (Some [3, 4]) 5 2 2 [1, 2, 3, 4] None None False
     = (Return (Err PIO_EPERM), st_readonly, [])
   \<and> PIOc_write_darray_multi ext0 st_unknown 7 (Some [3, 4]) 5 2 2 [1, 2, 3, 4] None None False
     = (Assert_failed ''unknown rearranger'', st_unknown, [])"
proof -
  note a = write_darray_multi_validation [OF write_darray_multi_states(1),
      of 0 "Some [3, 4]" ext0 5 2 "[1, 2, 3, 4]" None None False]
  note b = write_darray_multi_validation [OF write_darray_multi_states(1),
      of 2 "Some [3, 9000]" ext0 5 2 "[1, 2, 3, 4]" None None False]
  note c = write_darray_multi_validation [OF write_darray_multi_states(2),
      of 2 "Some [3, 4]" ext0 5 2 "[1, 2, 3, 4]" None None False]
  note d = write_darray_multi_validation [OF write_darray_multi_states(3),
      of 2 "Some [3, 4]" ext0 5 2 "[1, 2, 3, 4]" None None False]
  have a': "PIOc_write_darray_multi ext0 st0 7 (Some [3, 4]) 5 0 2 [1, 2, 3, 4] None None False
     = (Return (Err PIO_EINVAL), st0, [])"
    using a by simp
  have b': "PIOc_write_darray_multi ext0 st0 7 (Some [3, 9000]) 5 2 2 [1, 2, 3, 4] None None False
     = (Return (Err PIO_EINVAL), st0, [])"
    using b by (simp add: write_darray_multi_states_facts)
  have c': "PIOc_write_darray_multi ext0 st_readonly 7 (Some [3, 4]) 5 2 2 [1, 2, 3, 4] None None False
     = (Return (Err PIO_EPERM), st_readonly, [])"
    using c by (simp add: write_darray_multi_states_facts)
  have d': "PIOc_write_darray_multi ext0 st_unknown 7 (Some [3, 4]) 5 2 2 [1, 2, 3, 4] None None False
     = (Assert_failed ''unknown rearranger'', st_unknown, [])"
    using d write_darray_multi_states(4) by (simp add: write_darray_multi_states_facts)
  show ?thesis
    by (intro conjI) (rule a' b' c' d')+
qed

text \<open>
  With an unknown rearranger and valid arguments otherwise the call does not return
  \<^verbatim>\<open>PIO_EINVAL\<close>: the assertion fails; with assertions compiled out the call goes on,
  allocates the scratch buffer and dispatches the write.
\<close>

theorem write_darray_multi_unknown_rearranger_counterexample:
  "fst (PIOc_write_darray_multi ext0 st_unknown 7 (Some [3, 4]) 5 2 2 [1, 2, 3, 4] None
          (Some [9, 9, 8, 8]) False)
     = Assert_failed ''unknown rearranger''
   \<and> fst (PIOc_write_darray_multi (ext0\<lparr>NDEBUG := True\<rparr>) st_unknown 7 (Some [3, 4]) 5 2 2
            [1, 2, 3, 4] None (Some [9, 9, 8, 8]) False)
     = Return NOERR
   \<and> snd (snd (PIOc_write_darray_multi (ext0\<lparr>NDEBUG := True\<rparr>) st_unknown 7 (Some [3, 4]) 5 2 2
                 [1, 2, 3, 4] None (Some [9, 9, 8, 8]) False))
     = [Ev_bget A_iobuf 12, Ev_rearrange (Some [0, 0, 0, 0, 0, 0, 0, 0, 0, 0, 0, 0]) 2,
        Ev_write_serial DARRAY_DATA (Some [0, 0, 0, 0, 0, 0, 0, 0, 0, 0, 0, 0]) None,
        Ev_brel A_iobuf]"
  by code_simp

end
